(* ===== verification/Prelude.thy ===== *)
theory Prelude
  imports Complex_Main "HOL-Library.Multiset"
begin

text \<open>
  Shared vocabulary of the development.  The script
  \<^verbatim>\<open>src/grid cutting tools/grid_cut_blender.py\<close> manipulates Blender's
  \<^verbatim>\<open>mathutils.Vector\<close> values and raises Python exceptions from the host
  operators it calls.  This theory fixes how both are modelled:
  \<^item> coordinates are exact rationals (\<open>scalar\<close>); Blender stores single-precision
    floats, and rounding is not modelled;
  \<^item> a three-component vector is the datatype \<open>vec3\<close>, an instance of
    \<open>ab_group_add\<close> so that \<open>+\<close>, \<open>-\<close> and \<open>0\<close> read as in Python and the
    library's group automation applies; \<open>vscale\<close> is \<open>Vector * float\<close>;
  \<^item> the three coordinate axes are the datatype \<open>axis\<close>, with \<open>coord\<close> reading a
    component (\<open>vec[0]\<close>, \<open>vec[1]\<close>, \<open>vec[2]\<close>);
  \<^item> Python exceptions are the datatype \<open>py_error\<close>; an operation that may raise
    after it has changed the host state returns an \<open>outcome\<close>, the pair of
    \<open>Inl\<close> error or \<open>Inr\<close> value and the state reached.
  The collection \<open>vec_simps\<close> holds the component equations of the vector
  operations; they are also declared \<open>[simp]\<close>.
\<close>

named_theorems vec_simps "component equations of the vector operations"

type_synonym scalar = rat

datatype vec3 = Vec3 (vx: scalar) (vy: scalar) (vz: scalar)

datatype axis = AX | AY | AZ

datatype py_error =
    ValueError string
  | TypeError string
  | RuntimeError string
  | AttributeError string

type_synonym ('s, 'a) outcome = "(py_error + 'a) \<times> 's"

instantiation vec3 :: ab_group_add
begin

definition zero_vec3 :: vec3 where
  "zero_vec3 = Vec3 0 0 0"

definition plus_vec3 :: "vec3 \<Rightarrow> vec3 \<Rightarrow> vec3" where
  "plus_vec3 a b = Vec3 (vx a + vx b) (vy a + vy b) (vz a + vz b)"

definition minus_vec3 :: "vec3 \<Rightarrow> vec3 \<Rightarrow> vec3" where
  "minus_vec3 a b = Vec3 (vx a - vx b) (vy a - vy b) (vz a - vz b)"

definition uminus_vec3 :: "vec3 \<Rightarrow> vec3" where
  "uminus_vec3 a = Vec3 (- vx a) (- vy a) (- vz a)"

instance
  by standard
     (simp_all add: zero_vec3_def plus_vec3_def minus_vec3_def uminus_vec3_def)

end

definition vscale :: "scalar \<Rightarrow> vec3 \<Rightarrow> vec3" where
  "vscale c v = Vec3 (c * vx v) (c * vy v) (c * vz v)"

definition dot :: "vec3 \<Rightarrow> vec3 \<Rightarrow> scalar" where
  "dot a b = vx a * vx b + vy a * vy b + vz a * vz b"

fun coord :: "axis \<Rightarrow> vec3 \<Rightarrow> scalar" where
  "coord AX v = vx v"
| "coord AY v = vy v"
| "coord AZ v = vz v"

fun unit_dir :: "axis \<Rightarrow> vec3" where
  "unit_dir AX = Vec3 1 0 0"
| "unit_dir AY = Vec3 0 1 0"
| "unit_dir AZ = Vec3 0 0 1"

text \<open>Position of the first occurrence of an element in a list (Python's
  \<open>list.index\<close>); the length of the list when it does not occur.\<close>

fun index_of :: "'a list \<Rightarrow> 'a \<Rightarrow> nat" where
  "index_of [] x = 0"
| "index_of (y # ys) x = (if y = x then 0 else Suc (index_of ys x))"

text \<open>Sequencing of host calls that may raise: an exception skips the rest and
  keeps the state reached so far, as Python propagates it without rollback.\<close>

fun py_bind :: "('s, 'a) outcome \<Rightarrow> ('a \<Rightarrow> 's \<Rightarrow> ('s, 'b) outcome) \<Rightarrow> ('s, 'b) outcome" where
  "py_bind (Inl e, s) f = (Inl e, s)"
| "py_bind (Inr a, s) f = f a s"

text \<open>Updating the elements of a list whose position satisfies a predicate.\<close>

definition map_where :: "(nat \<Rightarrow> bool) \<Rightarrow> ('a \<Rightarrow> 'a) \<Rightarrow> 'a list \<Rightarrow> 'a list" where
  "map_where P g xs = map (\<lambda>(i, x). if P i then g x else x) (zip [0..<length xs] xs)"

subsection \<open>Vector lemmas\<close>

lemma vec3_eq_iff: "a = b \<longleftrightarrow> vx a = vx b \<and> vy a = vy b \<and> vz a = vz b"
  by (cases a; cases b) simp

lemma vec3_components [simp, vec_simps]:
  "vx 0 = 0" "vy 0 = 0" "vz 0 = 0"
  "vx (a + b) = vx a + vx b" "vy (a + b) = vy a + vy b" "vz (a + b) = vz a + vz b"
  "vx (a - b) = vx a - vx b" "vy (a - b) = vy a - vy b" "vz (a - b) = vz a - vz b"
  "vx (- a) = - vx a" "vy (- a) = - vy a" "vz (- a) = - vz a"
  "vx (vscale c a) = c * vx a" "vy (vscale c a) = c * vy a" "vz (vscale c a) = c * vz a"
  by (simp_all add: zero_vec3_def plus_vec3_def minus_vec3_def uminus_vec3_def vscale_def)

lemma coord_ops [simp, vec_simps]:
  "coord d 0 = 0" "coord d (a + b) = coord d a + coord d b"
  "coord d (a - b) = coord d a - coord d b" "coord d (vscale c a) = c * coord d a"
  "coord d (Vec3 x y z) = (case d of AX \<Rightarrow> x | AY \<Rightarrow> y | AZ \<Rightarrow> z)"
  by (cases d; simp)+

lemma coord_fun: "coord AX = vx" "coord AY = vy" "coord AZ = vz"
  by (rule ext, simp)+

lemma vec3_eq_coord: "a = b \<longleftrightarrow> (\<forall>d. coord d a = coord d b)"
proof
  assume "\<forall>d. coord d a = coord d b"
  then have "coord AX a = coord AX b" "coord AY a = coord AY b" "coord AZ a = coord AZ b"
    by blast+
  then show "a = b" by (simp add: vec3_eq_iff)
qed simp

lemma dot_sub_left [vec_simps]: "dot (a - b) n = dot a n - dot b n"
  by (simp add: dot_def algebra_simps)

lemma dot_add_left [vec_simps]: "dot (a + b) n = dot a n + dot b n"
  by (simp add: dot_def algebra_simps)

lemma dot_scale_left [vec_simps]: "dot (vscale c a) n = c * dot a n"
  by (simp add: dot_def algebra_simps)

lemma dot_unit_dir [simp]: "dot v (unit_dir d) = coord d v"
  by (cases d) (simp_all add: dot_def)

lemma vscale_unit_dir_coord [simp]:
  "coord d' (vscale c (unit_dir d)) = (if d' = d then c else 0)"
  by (cases d; cases d') simp_all

subsection \<open>List lemmas\<close>

lemma index_of_less [simp]: "x \<in> set xs \<Longrightarrow> index_of xs x < length xs"
  by (induction xs) auto

lemma nth_index_of [simp]: "x \<in> set xs \<Longrightarrow> xs ! index_of xs x = x"
  by (induction xs) auto

lemma index_of_nth [simp]: "distinct xs \<Longrightarrow> i < length xs \<Longrightarrow> index_of xs (xs ! i) = i"
  by (induction xs arbitrary: i) (auto simp: nth_Cons split: nat.splits)

lemma nth_map_index_of [simp]: "x \<in> set xs \<Longrightarrow> map g xs ! index_of xs x = g x"
  by simp

lemma index_of_sort_remdups_less [simp]:
  "x \<in> set xs \<Longrightarrow> index_of (sort (remdups xs)) x < length (remdups xs)"
  by (metis index_of_less length_sort set_remdups set_sort)

lemma distinct_concat_nth_disjoint:
  "distinct (concat xs) \<Longrightarrow> p < length xs \<Longrightarrow> q < length xs \<Longrightarrow> p \<noteq> q \<Longrightarrow>
   set (xs ! p) \<inter> set (xs ! q) = {}"
proof (induction xs arbitrary: p q)
  case (Cons a xs)
  then show ?case by (cases p; cases q) (force dest: nth_mem)+
qed simp

lemma mset_concat_list_update:
  "i < length xs \<Longrightarrow> mset (concat (xs[i := y])) + mset (xs ! i) = mset (concat xs) + mset y"
proof (induction xs arbitrary: i)
  case (Cons a xs)
  then show ?case by (cases i) (simp_all add: add_ac)
qed simp

lemma length_concat_map_nonempty:
  "\<forall>x \<in> set xs. h x \<noteq> [] \<Longrightarrow> length xs \<le> length (concat (map h xs))"
proof (induction xs)
  case (Cons x xs)
  then have "1 \<le> length (h x)" by (simp add: Suc_leI)
  with Cons show ?case by simp
qed simp

lemma length_map_where [simp]: "length (map_where P g xs) = length xs"
  by (simp add: map_where_def)

lemma nth_map_where [simp]:
  "i < length xs \<Longrightarrow> map_where P g xs ! i = (if P i then g (xs ! i) else xs ! i)"
  by (simp add: map_where_def)

lemma floor_numeral_div [simp]:
  "\<lfloor>(numeral a / numeral b :: scalar)\<rfloor> = numeral a div numeral b"
  by (metis floor_divide_of_int_eq of_int_numeral)

lemma distinct_concat_map_sort: "distinct (concat (map sort xss)) = distinct (concat xss)"
  by (induction xss) auto

end
