(* ===== verification/Py_Range.thy ===== *)
theory Py_Range
  imports Prelude
begin

text \<open>
  Python's built-in \<^verbatim>\<open>range(start, stop, step)\<close>, which the script's entry
  point (line 61) builds and which \<open>perform_cuts\<close> iterates (line 12).  It is
  part of the Python runtime, not of the repository, and is modelled from the
  language reference: a zero step raises \<^verbatim>\<open>ValueError\<close>; otherwise the values
  are \<open>start, start + step, \<dots>\<close> as long as they lie strictly before \<open>stop\<close> in
  the direction of \<open>step\<close>.  \<open>range_vals\<close> is the loop that produces the values,
  a \<^theory_text>\<open>function\<close> whose termination measure is the distance left to \<open>stop\<close>.
\<close>

function range_vals :: "int \<Rightarrow> int \<Rightarrow> int \<Rightarrow> int list" where
  "range_vals i stop step =
     (if (0 < step \<and> i < stop) \<or> (step < 0 \<and> stop < i)
      then i # range_vals (i + step) stop step else [])"
  by pat_completeness auto
termination
  by (relation "measure (\<lambda>(i, stop, step). nat (if 0 < step then stop - i else i - stop))")
     auto

declare range_vals.simps [simp del]

definition py_range :: "int \<Rightarrow> int \<Rightarrow> int \<Rightarrow> py_error + int list" where
  "py_range start stop step =
     (if step = 0 then Inl (ValueError ''range() arg 3 must not be zero'')
      else Inr (range_vals start stop step))"

subsection \<open>The values of a range\<close>

end
