(* ===== verification/Mesh.thy ===== *)
theory Mesh
  imports Prelude
begin

text \<open>
  The mesh data the script edits through \<^verbatim>\<open>bmesh\<close> (lines 13, 14, 18, 26) and
  whose bounding box it reads through \<^verbatim>\<open>Object.bound_box\<close> (line 42).  Blender
  owns this data; it is modelled from its documented behaviour.
  \<^item> \<open>bmesh\<close>: a vertex table of positions and a list of faces, each face the
    cycle of its vertex indices.  Edges are the consecutive pairs of a face
    (\<open>face_edges\<close>); loose vertices and wire edges are not modelled.
  \<^item> \<open>idx_ok\<close>: every face corner indexes the vertex table.
  \<^item> \<open>lo_of\<close>/\<open>hi_of\<close> and \<open>bbox_lo\<close>/\<open>bbox_hi\<close>: the extent of the vertices
    along one axis; \<open>bound_box\<close>: the eight corners in Blender's order
    (\<^verbatim>\<open>BKE_boundbox_init_from_minmax\<close>), the box from -1 to 1 for a mesh
    without vertices.
  \<^item> \<open>mesh_map\<close>: moving every vertex by a function, as applying a transform
    to the data does.
\<close>

record bmesh =
  verts :: "vec3 list"
  faces :: "nat list list"

definition face_edges :: "nat list \<Rightarrow> (nat \<times> nat) list" where
  "face_edges f = zip f (rotate1 f)"

definition ekey :: "nat \<Rightarrow> nat \<Rightarrow> nat \<times> nat" where
  "ekey a b = (min a b, max a b)"

definition idx_ok :: "bmesh \<Rightarrow> bool" where
  "idx_ok m \<longleftrightarrow> list_all (list_all (\<lambda>v. v < length (verts m))) (faces m)"

definition lo_of :: "(vec3 \<Rightarrow> scalar) \<Rightarrow> vec3 list \<Rightarrow> scalar" where
  "lo_of c vs = (case vs of [] \<Rightarrow> -1 | v # ws \<Rightarrow> fold min (map c ws) (c v))"

definition hi_of :: "(vec3 \<Rightarrow> scalar) \<Rightarrow> vec3 list \<Rightarrow> scalar" where
  "hi_of c vs = (case vs of [] \<Rightarrow> 1 | v # ws \<Rightarrow> fold max (map c ws) (c v))"

definition bbox_lo :: "bmesh \<Rightarrow> vec3" where
  "bbox_lo m = Vec3 (lo_of vx (verts m)) (lo_of vy (verts m)) (lo_of vz (verts m))"

definition bbox_hi :: "bmesh \<Rightarrow> vec3" where
  "bbox_hi m = Vec3 (hi_of vx (verts m)) (hi_of vy (verts m)) (hi_of vz (verts m))"

definition bound_box :: "bmesh \<Rightarrow> vec3 list" where
  "bound_box m =
     (let l = bbox_lo m; h = bbox_hi m in
      [Vec3 (vx l) (vy l) (vz l), Vec3 (vx l) (vy l) (vz h),
       Vec3 (vx l) (vy h) (vz h), Vec3 (vx l) (vy h) (vz l),
       Vec3 (vx h) (vy l) (vz l), Vec3 (vx h) (vy l) (vz h),
       Vec3 (vx h) (vy h) (vz h), Vec3 (vx h) (vy h) (vz l)])"

definition mesh_map :: "(vec3 \<Rightarrow> vec3) \<Rightarrow> bmesh \<Rightarrow> bmesh" where
  "mesh_map g m = m\<lparr>verts := map g (verts m)\<rparr>"

subsection \<open>Extent along one axis\<close>

lemma lo_of_Min: "vs \<noteq> [] \<Longrightarrow> lo_of c vs = Min (c ` set vs)"
  by (cases vs) (simp_all add: lo_of_def Min.set_eq_fold [symmetric])

lemma hi_of_Max: "vs \<noteq> [] \<Longrightarrow> hi_of c vs = Max (c ` set vs)"
  by (cases vs) (simp_all add: hi_of_def Max.set_eq_fold [symmetric])

lemma lo_of_le: "v \<in> set vs \<Longrightarrow> lo_of c vs \<le> c v"
  by (subst lo_of_Min) (auto intro: Min_le)

lemma hi_of_ge: "v \<in> set vs \<Longrightarrow> c v \<le> hi_of c vs"
  by (subst hi_of_Max) (auto intro: Max_ge)

lemma lo_of_mem: "vs \<noteq> [] \<Longrightarrow> \<exists>v \<in> set vs. lo_of c vs = c v"
proof -
  assume "vs \<noteq> []"
  then have "Min (c ` set vs) \<in> c ` set vs" by (intro Min_in) auto
  then obtain v where "v \<in> set vs" "Min (c ` set vs) = c v" by blast
  with \<open>vs \<noteq> []\<close> show ?thesis by (metis lo_of_Min)
qed

lemma hi_of_mem: "vs \<noteq> [] \<Longrightarrow> \<exists>v \<in> set vs. hi_of c vs = c v"
proof -
  assume "vs \<noteq> []"
  then have "Max (c ` set vs) \<in> c ` set vs" by (intro Max_in) auto
  then obtain v where "v \<in> set vs" "Max (c ` set vs) = c v" by blast
  with \<open>vs \<noteq> []\<close> show ?thesis by (metis hi_of_Max)
qed

lemma lo_of_le_hi_of: "lo_of c vs \<le> hi_of c vs"
proof (cases vs)
  case (Cons v ws)
  then have "lo_of c vs \<le> c v" "c v \<le> hi_of c vs"
    by (simp_all add: lo_of_le hi_of_ge)
  then show ?thesis by simp
qed (simp add: lo_of_def hi_of_def)

text \<open>The extent is characterised by its two properties: a lower bound that is
  attained.  Shifting and mapping lemmas below follow from this.\<close>

lemma lo_of_unique:
  assumes "vs \<noteq> []" "\<forall>v \<in> set vs. x \<le> c v" "\<exists>v \<in> set vs. x = c v"
  shows "lo_of c vs = x"
  using assms lo_of_le lo_of_mem by (metis order_antisym)

lemma hi_of_unique:
  assumes "vs \<noteq> []" "\<forall>v \<in> set vs. c v \<le> x" "\<exists>v \<in> set vs. x = c v"
  shows "hi_of c vs = x"
  using assms hi_of_ge hi_of_mem by (metis order_antisym)

lemma lo_of_shift:
  "vs \<noteq> [] \<Longrightarrow> lo_of (\<lambda>v. c v + k) vs = lo_of c vs + k"
  by (rule lo_of_unique) (auto simp: lo_of_le dest: lo_of_mem [of vs c])

lemma hi_of_shift:
  "vs \<noteq> [] \<Longrightarrow> hi_of (\<lambda>v. c v + k) vs = hi_of c vs + k"
  by (rule hi_of_unique) (auto simp: hi_of_ge dest: hi_of_mem [of vs c])

lemma lo_of_map: "lo_of c (map g vs) = (if vs = [] then -1 else lo_of (c \<circ> g) vs)"
  by (cases vs) (simp_all add: lo_of_def fold_map comp_def)

lemma hi_of_map: "hi_of c (map g vs) = (if vs = [] then 1 else hi_of (c \<circ> g) vs)"
  by (cases vs) (simp_all add: hi_of_def fold_map comp_def)

lemma coord_bbox_lo [simp]: "coord d (bbox_lo m) = lo_of (coord d) (verts m)"
  by (cases d) (simp_all add: bbox_lo_def coord_fun)

lemma coord_bbox_hi [simp]: "coord d (bbox_hi m) = hi_of (coord d) (verts m)"
  by (cases d) (simp_all add: bbox_hi_def coord_fun)

lemma mesh_map_simps [simp]:
  "verts (mesh_map g m) = map g (verts m)" "faces (mesh_map g m) = faces m"
  by (simp_all add: mesh_map_def)

lemma idx_okD: "idx_ok m \<Longrightarrow> f \<in> set (faces m) \<Longrightarrow> v \<in> set f \<Longrightarrow> v < length (verts m)"
  by (auto simp: idx_ok_def list_all_iff)

end
