(* ===== verification/Closure.thy ===== *)
theory Closure
  imports Prelude
begin

text \<open>
  Reachability closure over the indices \<open>0..<n\<close>, the one graph search that the
  host's mesh operators need: \<^verbatim>\<open>bmesh.ops.split_edges\<close> groups the faces
  around a vertex into fans, and \<^verbatim>\<open>bpy.ops.mesh.separate(type='LOOSE')\<close>
  groups faces into connected parts.
  \<^item> \<open>grow adj n S\<close> adds to \<open>S\<close> every index below \<open>n\<close> adjacent to a member,
    until nothing is added.  It terminates because the indices below \<open>n\<close> not
    yet in \<open>S\<close> decrease (the measure of the \<^theory_text>\<open>termination\<close> proof).
  \<^item> \<open>components adj n xs\<close> splits \<open>xs\<close> into the closures of its first
    remaining element, in order.
  The lemmas: the closure contains its seed, is closed under adjacency and
  contains exactly the indices reachable from the seed (\<open>grow_sound\<close>,
  \<open>grow_complete\<close>); the components partition their input and are closed.
\<close>

function grow :: "(nat \<Rightarrow> nat \<Rightarrow> bool) \<Rightarrow> nat \<Rightarrow> nat list \<Rightarrow> nat list" where
  "grow adj n S =
     (let new = filter (\<lambda>j. j \<notin> set S \<and> list_ex (\<lambda>i. adj i j) S) [0..<n]
      in if new = [] then S else grow adj n (S @ new))"
  by pat_completeness auto
termination
proof (relation "measure (\<lambda>(adj, n, S). card ({0..<n} - set S))")
  fix adj n S new
  assume new: "new = filter (\<lambda>j. j \<notin> set S \<and> list_ex (\<lambda>i. adj i j) S) [0..<n]"
    and ne: "new \<noteq> []"
  from ne have jn: "hd new \<in> set new" by simp
  with new have j: "hd new < n" "hd new \<notin> set S" by auto
  have sub: "{0..<n} - set (S @ new) \<subseteq> {0..<n} - set S" by auto
  have "hd new \<in> {0..<n} - set S" using j by simp
  moreover have "hd new \<notin> {0..<n} - set (S @ new)" using jn by simp
  ultimately have "{0..<n} - set (S @ new) \<subset> {0..<n} - set S" using sub by blast
  then show "((adj, n, S @ new), adj, n, S) \<in> measure (\<lambda>(adj, n, S). card ({0..<n} - set S))"
    by (simp add: psubset_card_mono)
qed simp

declare grow.simps [simp del]

fun components :: "(nat \<Rightarrow> nat \<Rightarrow> bool) \<Rightarrow> nat \<Rightarrow> nat list \<Rightarrow> nat list list" where
  "components adj n [] = []"
| "components adj n (i # rest) =
     (let c = grow adj n [i] in c # components adj n (filter (\<lambda>j. j \<notin> set c) rest))"

definition bounded_adj :: "(nat \<Rightarrow> nat \<Rightarrow> bool) \<Rightarrow> nat \<Rightarrow> nat \<Rightarrow> nat \<Rightarrow> bool" where
  "bounded_adj adj n i j \<longleftrightarrow> adj i j \<and> j < n"

subsection \<open>The closure\<close>

lemma grow_unfold:
  "grow adj n S =
     (let new = filter (\<lambda>j. j \<notin> set S \<and> list_ex (\<lambda>i. adj i j) S) [0..<n]
      in if new = [] then S else grow adj n (S @ new))"
  by (rule grow.simps)

lemma grow_mono: "set S \<subseteq> set (grow adj n S)"
proof (induction adj n S rule: grow.induct)
  case (1 adj n S)
  then show ?case by (subst grow_unfold) (auto simp: Let_def)
qed

lemma grow_sound:
  "j \<in> set (grow adj n S) \<Longrightarrow> \<exists>i \<in> set S. (bounded_adj adj n)\<^sup>*\<^sup>* i j"
proof (induction adj n S rule: grow.induct)
  case (1 adj n S)
  let ?new = "filter (\<lambda>j. j \<notin> set S \<and> list_ex (\<lambda>i. adj i j) S) [0..<n]"
  show ?case
  proof (cases "?new = []")
    case True
    with "1.prems" have "j \<in> set S" by (subst (asm) grow_unfold) (simp add: Let_def)
    then show ?thesis by blast
  next
    case False
    with "1.prems" have "j \<in> set (grow adj n (S @ ?new))"
      by (subst (asm) grow_unfold) (simp add: Let_def)
    with False "1.IH" obtain i where i: "i \<in> set (S @ ?new)" "(bounded_adj adj n)\<^sup>*\<^sup>* i j"
      by (auto simp: Let_def)
    show ?thesis
    proof (cases "i \<in> set S")
      case False
      with i obtain k where "k \<in> set S" "adj k i" "i < n"
        by (auto simp: list_ex_iff)
      then have "(bounded_adj adj n)\<^sup>*\<^sup>* k i" by (auto simp: bounded_adj_def)
      with i \<open>k \<in> set S\<close> show ?thesis by (meson rtranclp_trans)
    qed (use i in blast)
  qed
qed

lemma grow_closed:
  "i \<in> set (grow adj n S) \<Longrightarrow> adj i j \<Longrightarrow> j < n \<Longrightarrow> j \<in> set (grow adj n S)"
proof (induction adj n S rule: grow.induct)
  case (1 adj n S)
  let ?new = "filter (\<lambda>j. j \<notin> set S \<and> list_ex (\<lambda>i. adj i j) S) [0..<n]"
  show ?case
  proof (cases "?new = []")
    case True
    with "1.prems" have "i \<in> set S" by (subst (asm) grow_unfold) (simp add: Let_def)
    with True "1.prems"(2,3) have "j \<in> set S"
      by (auto simp: list_ex_iff filter_empty_conv)
    with True show ?thesis by (subst grow_unfold) (simp add: Let_def)
  next
    case False
    with "1.prems"(1) have "i \<in> set (grow adj n (S @ ?new))"
      by (subst (asm) grow_unfold) (simp add: Let_def)
    with False "1.IH" "1.prems"(2,3) have "j \<in> set (grow adj n (S @ ?new))"
      by blast
    with False show ?thesis by (subst grow_unfold) (simp add: Let_def)
  qed
qed

lemma grow_complete:
  assumes "(bounded_adj adj n)\<^sup>*\<^sup>* i j" "i \<in> set S"
  shows "j \<in> set (grow adj n S)"
  using assms(1)
proof (induction rule: rtranclp_induct)
  case base
  then show ?case using assms(2) grow_mono by blast
next
  case (step k j)
  then show ?case by (auto simp: bounded_adj_def intro: grow_closed)
qed

subsection \<open>Components\<close>

lemma components_cover:
  "set xs \<subseteq> \<Union> (set ` set (components adj n xs))"
proof (induction adj n xs rule: components.induct)
  case (2 adj n i rest)
  have "i \<in> set (grow adj n [i])" using grow_mono by fastforce
  with "2.IH" show ?case by (auto simp: Let_def)
qed simp

lemma components_grow:
  "c \<in> set (components adj n xs) \<Longrightarrow> \<exists>i \<in> set xs. c = grow adj n [i]"
  by (induction adj n xs rule: components.induct) (auto simp: Let_def)

lemma components_closed:
  "c \<in> set (components adj n xs) \<Longrightarrow> i \<in> set c \<Longrightarrow> adj i j \<Longrightarrow> j < n \<Longrightarrow> j \<in> set c"
  using components_grow grow_closed by metis

lemma reach_bounded:
  "(bounded_adj adj n)\<^sup>*\<^sup>* i j \<Longrightarrow> i < n \<Longrightarrow> j < n"
  by (induction rule: rtranclp_induct) (auto simp: bounded_adj_def)

lemma reach_sym:
  assumes sym: "\<And>a b. adj a b \<Longrightarrow> adj b a"
  shows "(bounded_adj adj n)\<^sup>*\<^sup>* i j \<Longrightarrow> i < n \<Longrightarrow> (bounded_adj adj n)\<^sup>*\<^sup>* j i"
proof (induction rule: rtranclp_induct)
  case (step k j)
  then have "k < n" using reach_bounded by metis
  with step have "bounded_adj adj n j k" by (auto simp: bounded_adj_def sym)
  with step show ?case by (meson converse_rtranclp_into_rtranclp)
qed simp

lemma grow_distinct: "distinct S \<Longrightarrow> distinct (grow adj n S)"
proof (induction adj n S rule: grow.induct)
  case (1 adj n S)
  then show ?case by (subst grow_unfold) (auto simp: Let_def)
qed

lemma grow_seed_disjoint:
  assumes sym: "\<forall>a b. adj a b \<longrightarrow> adj b a" and "k < n" "k \<notin> set (grow adj n [i])"
  shows "set (grow adj n [k]) \<inter> set (grow adj n [i]) = {}"
proof -
  have "x \<notin> set (grow adj n [i])" if x: "x \<in> set (grow adj n [k])" for x
  proof
    assume "x \<in> set (grow adj n [i])"
    then have ix: "(bounded_adj adj n)\<^sup>*\<^sup>* i x" using grow_sound by fastforce
    from x have "(bounded_adj adj n)\<^sup>*\<^sup>* k x" using grow_sound by fastforce
    then have "(bounded_adj adj n)\<^sup>*\<^sup>* x k"
      by (rule reach_sym [of adj, rotated]) (use sym \<open>k < n\<close> in blast)+
    with ix have "(bounded_adj adj n)\<^sup>*\<^sup>* i k" by (rule rtranclp_trans)
    then have "k \<in> set (grow adj n [i])" by (rule grow_complete) simp
    with assms(3) show False by simp
  qed
  then show ?thesis by blast
qed

lemma components_bounded:
  "\<forall>i \<in> set xs. i < n \<Longrightarrow> c \<in> set (components adj n xs) \<Longrightarrow> j \<in> set c \<Longrightarrow> j < n"
proof -
  assume xs: "\<forall>i \<in> set xs. i < n" and c: "c \<in> set (components adj n xs)" and j: "j \<in> set c"
  from c obtain i where i: "i \<in> set xs" "c = grow adj n [i]" using components_grow by blast
  with j have "(bounded_adj adj n)\<^sup>*\<^sup>* i j" using grow_sound by fastforce
  with i xs show "j < n" using reach_bounded by blast
qed

lemma components_distinct:
  "\<forall>a b. adj a b \<longrightarrow> adj b a \<Longrightarrow> \<forall>i \<in> set xs. i < n \<Longrightarrow>
   distinct (concat (components adj n xs))"
proof (induction adj n xs rule: components.induct)
  case (2 adj n i rest)
  let ?c = "grow adj n [i]"
  let ?rest = "filter (\<lambda>j. j \<notin> set ?c) rest"
  have "set ?c \<inter> set d = {}" if d: "d \<in> set (components adj n ?rest)" for d
  proof -
    from d obtain k where k: "k \<in> set ?rest" "d = grow adj n [k]" using components_grow by metis
    with "2.prems"(2) have "k < n" by auto
    with k "2.prems"(1) have "set d \<inter> set ?c = {}" using grow_seed_disjoint [of adj k n i] by simp
    then show ?thesis by blast
  qed
  moreover have "distinct ?c" by (simp add: grow_distinct)
  ultimately show ?case using "2.IH" "2.prems" by (auto simp: Let_def)
qed simp

end
