(* ===== verification/Loose.thy ===== *)
theory Loose
  imports Mesh Closure
begin

text \<open>
  The mesh side of \<^verbatim>\<open>bpy.ops.mesh.separate(type='LOOSE')\<close> (line 28): the faces
  of a mesh fall into loose parts, the classes of faces connected through
  shared vertices (\<open>share_vertex\<close>, closed with \<open>components\<close>); each part
  becomes a mesh of its own, holding only the vertices its faces use, renumbered
  in increasing order (\<open>part_mesh\<close>).  The lemmas show that the parts
  partition the faces, that faces of different parts share no vertex, and that
  each part mesh keeps the geometry of its faces.
\<close>

definition share_vertex :: "bmesh \<Rightarrow> nat \<Rightarrow> nat \<Rightarrow> bool" where
  "share_vertex m i j \<longleftrightarrow> list_ex (\<lambda>v. v \<in> set (faces m ! j)) (faces m ! i)"

definition loose_groups :: "bmesh \<Rightarrow> nat list list" where
  "loose_groups m = map sort (components (share_vertex m) (length (faces m)) [0..<length (faces m)])"

definition part_mesh :: "bmesh \<Rightarrow> nat list \<Rightarrow> bmesh" where
  "part_mesh m c =
     (let fs = map (\<lambda>i. faces m ! i) c; vs = sort (remdups (concat fs))
      in \<lparr>verts = map (\<lambda>v. verts m ! v) vs, faces = map (map (index_of vs)) fs\<rparr>)"

definition loose_parts :: "bmesh \<Rightarrow> bmesh list" where
  "loose_parts m = map (part_mesh m) (loose_groups m)"

text \<open>The geometry of the faces: each face as the list of its corner positions.\<close>

definition face_coords :: "bmesh \<Rightarrow> vec3 list list" where
  "face_coords m = map (map (\<lambda>v. verts m ! v)) (faces m)"

abbreviation ex_two_tris :: bmesh where
  "ex_two_tris \<equiv> \<lparr>verts = [Vec3 0 0 0, Vec3 1 0 0, Vec3 0 1 0, Vec3 5 0 0, Vec3 6 0 0, Vec3 5 1 0],
                  faces = [[0, 1, 2], [3, 4, 5]]\<rparr>"

abbreviation ex_strip :: bmesh where
  "ex_strip \<equiv> \<lparr>verts = [Vec3 0 0 0, Vec3 1 0 0, Vec3 0 1 0, Vec3 1 1 0],
               faces = [[0, 1, 2], [1, 3, 2]]\<rparr>"

subsection \<open>Loose groups partition the faces\<close>

lemma share_vertex_sym: "\<forall>a b. share_vertex m a b \<longrightarrow> share_vertex m b a"
  by (auto simp: share_vertex_def list_ex_iff)

lemma loose_groups_bounded: "c \<in> set (loose_groups m) \<Longrightarrow> i \<in> set c \<Longrightarrow> i < length (faces m)"
proof -
  assume "c \<in> set (loose_groups m)" "i \<in> set c"
  then obtain c' where "c' \<in> set (components (share_vertex m) (length (faces m)) [0..<length (faces m)])"
    "i \<in> set c'"
    by (auto simp: loose_groups_def)
  then show ?thesis using components_bounded [of "[0..<length (faces m)]" "length (faces m)"] by auto
qed

lemma loose_groups_distinct: "distinct (concat (loose_groups m))"
  unfolding loose_groups_def distinct_concat_map_sort
  by (rule components_distinct [OF share_vertex_sym]) simp

lemma set_concat_loose_groups: "set (concat (loose_groups m)) = {0..<length (faces m)}"
proof
  show "set (concat (loose_groups m)) \<subseteq> {0..<length (faces m)}"
    using loose_groups_bounded by fastforce
  show "{0..<length (faces m)} \<subseteq> set (concat (loose_groups m))"
    using components_cover [of "[0..<length (faces m)]" "share_vertex m" "length (faces m)"]
    by (auto simp: loose_groups_def)
qed

lemma mset_concat_loose_groups: "mset (concat (loose_groups m)) = mset [0..<length (faces m)]"
  using set_eq_iff_mset_eq_distinct [OF loose_groups_distinct distinct_upt] set_concat_loose_groups
  by simp

lemma loose_groups_closed:
  "c \<in> set (loose_groups m) \<Longrightarrow> i \<in> set c \<Longrightarrow> j < length (faces m) \<Longrightarrow> share_vertex m i j \<Longrightarrow> j \<in> set c"
  unfolding loose_groups_def using components_closed by fastforce

lemma loose_groups_reach:
  "c \<in> set (loose_groups m) \<Longrightarrow> j \<in> set c \<Longrightarrow>
   \<exists>i. set c = set (grow (share_vertex m) (length (faces m)) [i]) \<and> i < length (faces m) \<and>
       (bounded_adj (share_vertex m) (length (faces m)))\<^sup>*\<^sup>* i j"
  unfolding loose_groups_def using components_grow grow_sound by fastforce

lemma loose_groups_member_nonempty: "c \<in> set (loose_groups m) \<Longrightarrow> c \<noteq> []"
proof -
  assume "c \<in> set (loose_groups m)"
  then obtain i where "set c = set (grow (share_vertex m) (length (faces m)) [i])"
    unfolding loose_groups_def using components_grow by fastforce
  moreover have "i \<in> set (grow (share_vertex m) (length (faces m)) [i])" using grow_mono by fastforce
  ultimately show "c \<noteq> []" by auto
qed

subsection \<open>Part meshes keep the geometry\<close>

lemma faces_part_mesh_length [simp]: "length (faces (part_mesh m c)) = length c"
  by (simp add: part_mesh_def Let_def)

lemma face_coords_part_mesh:
  "face_coords (part_mesh m c) = map (\<lambda>i. map (\<lambda>v. verts m ! v) (faces m ! i)) c"
  unfolding face_coords_def part_mesh_def Let_def
  by (auto intro!: nth_map_index_of)

lemma idx_ok_part_mesh: "idx_ok (part_mesh m c)"
  unfolding idx_ok_def part_mesh_def Let_def list_all_iff
  by (auto intro!: index_of_sort_remdups_less)

lemma concat_face_coords_loose_parts:
  "concat (map face_coords (loose_parts m)) = map (\<lambda>i. map (\<lambda>v. verts m ! v) (faces m ! i)) (concat (loose_groups m))"
  by (simp add: loose_parts_def face_coords_part_mesh map_concat comp_def)

subsection \<open>Properties of the separation\<close>

text \<open>Separating the loose parts loses no face, duplicates none and moves none:
  the faces of the parts, read as lists of corner positions, are the faces of
  the mesh up to order.\<close>

theorem loose_parts_keep_faces:
  "mset (concat (map face_coords (loose_parts m))) = mset (face_coords m)"
proof -
  let ?g = "\<lambda>i. map (\<lambda>v. verts m ! v) (faces m ! i)"
  have "mset (concat (map face_coords (loose_parts m))) = image_mset ?g (mset (concat (loose_groups m)))"
    by (simp add: concat_face_coords_loose_parts)
  also have "\<dots> = mset (map ?g [0..<length (faces m)])"
    by (simp add: mset_concat_loose_groups)
  also have "map ?g [0..<length (faces m)] = face_coords m"
    unfolding face_coords_def by (rule nth_equalityI) simp_all
  finally show ?thesis .
qed

text \<open>Faces that end up in different loose parts share no vertex.\<close>

theorem loose_groups_separated:
  assumes "p < length (loose_groups m)" "q < length (loose_groups m)" "p \<noteq> q"
    and "i \<in> set (loose_groups m ! p)" "j \<in> set (loose_groups m ! q)"
  shows "set (faces m ! i) \<inter> set (faces m ! j) = {}"
proof (rule ccontr)
  assume "set (faces m ! i) \<inter> set (faces m ! j) \<noteq> {}"
  then have "share_vertex m i j" by (auto simp: share_vertex_def list_ex_iff)
  moreover have "j < length (faces m)" using assms(2,5) loose_groups_bounded nth_mem by blast
  ultimately have "j \<in> set (loose_groups m ! p)" using assms(1,4) loose_groups_closed nth_mem by blast
  then show False
    using assms distinct_concat_nth_disjoint [OF loose_groups_distinct] by blast
qed

theorem loose_groups_separated_witness:
  "set (faces ex_two_tris ! 0) \<inter> set (faces ex_two_tris ! 1) = {} \<and> loose_groups ex_two_tris = [[0], [1]]"
proof -
  have g: "loose_groups ex_two_tris = [[0], [1]]" by code_simp
  have "set (faces ex_two_tris ! 0) \<inter> set (faces ex_two_tris ! 1) = {}"
    by (rule loose_groups_separated [of 0 ex_two_tris 1, unfolded g]) simp_all
  with g show ?thesis by simp
qed

text \<open>Every loose part is connected: any two of its faces are joined by a path
  of faces sharing a vertex.\<close>

theorem loose_groups_connected:
  assumes "c \<in> set (loose_groups m)" "i \<in> set c" "j \<in> set c"
  shows "(bounded_adj (share_vertex m) (length (faces m)))\<^sup>*\<^sup>* i j"
proof -
  let ?R = "bounded_adj (share_vertex m) (length (faces m))"
  obtain k where k: "set c = set (grow (share_vertex m) (length (faces m)) [k])" "k < length (faces m)"
    and ki: "?R\<^sup>*\<^sup>* k i"
    using loose_groups_reach [OF assms(1,2)] by blast
  have "?R\<^sup>*\<^sup>* k j" using assms(3) k(1) grow_sound by fastforce
  moreover have "?R\<^sup>*\<^sup>* i k"
    by (rule reach_sym [OF _ ki k(2)]) (simp add: share_vertex_def list_ex_iff, blast)
  ultimately show ?thesis by (meson rtranclp_trans)
qed

theorem loose_groups_connected_witness:
  "loose_groups ex_strip = [[0, 1]] \<and> (bounded_adj (share_vertex ex_strip) 2)\<^sup>*\<^sup>* 0 1"
proof -
  have g: "loose_groups ex_strip = [[0, 1]]" by code_simp
  have "(bounded_adj (share_vertex ex_strip) (length (faces ex_strip)))\<^sup>*\<^sup>* 0 1"
    by (rule loose_groups_connected [where c = "[0, 1]" and m = ex_strip, unfolded g]) simp_all
  with g show ?thesis by (simp add: numeral_2_eq_2)
qed

end
