(* ===== verification/Scene.thy ===== *)
theory Scene
  imports Loose
begin

text \<open>
  The part of Blender's scene that the script reads and changes through
  \<^verbatim>\<open>bpy\<close>, and the script's own helper \<open>select\<close> (lines 6--9).
  \<^item> \<open>obj\<close>: an object with its type, its transform (\<open>location\<close> and the
    rotation-and-scale matrix \<open>basis\<close>) and its mesh data.  \<open>OTHER\<close> stands for an
    object without geometry (an Empty), whose \<^verbatim>\<open>bound_box\<close> is the box from -1
    to 1.  \<open>world_of\<close> maps local coordinates to world coordinates.
  \<^item> \<open>scene\<close>: the objects of the view layer (an object is its index), the active
    object (\<^verbatim>\<open>bpy.context.object\<close>), the selected objects, the interaction mode
    and the objects in edit mode.  \<open>selected_objects\<close> is
    \<^verbatim>\<open>bpy.context.selected_objects\<close>, in view-layer order.
  \<^item> the operators: \<open>select_all_deselect\<close>, \<open>set_active\<close>, \<open>select_set\<close>,
    \<open>set_location\<close> (an assignment to \<^verbatim>\<open>Object.location\<close>),
    \<open>transform_apply\<close> (\<^verbatim>\<open>bpy.ops.object.transform_apply\<close> with location,
    rotation and scale: bakes each selected object's transform into its
    vertices and resets location, rotation and scale to the identity; an Empty
    has no vertices and only loses its transform; refused outside object mode)
    and \<open>mode_set\<close>
    (\<^verbatim>\<open>bpy.ops.object.mode_set\<close>: needs an active object; edit mode needs a mesh
    and takes the selected meshes along).
  \<^item> \<open>mesh_separate_loose\<close> (\<^verbatim>\<open>bpy.ops.mesh.separate(type='LOOSE')\<close>): for every
    object in edit mode, the object keeps the first loose part of its mesh and
    each further part becomes a new, selected object with the same type and
    transform (\<open>separate_obj\<close>); refused outside edit mode.
\<close>

datatype obj_type = MESH | OTHER

datatype mode = OBJECT | EDIT

datatype mat3 = Mat3 vec3 vec3 vec3

record obj =
  otype :: obj_type
  location :: vec3
  basis :: mat3
  data :: bmesh

record scene =
  objects :: "obj list"
  active :: "nat option"
  selected :: "nat list"
  mode :: mode
  editing :: "nat list"

fun mat_apply :: "mat3 \<Rightarrow> vec3 \<Rightarrow> vec3" where
  "mat_apply (Mat3 r0 r1 r2) v = Vec3 (dot r0 v) (dot r1 v) (dot r2 v)"

definition mat_id :: mat3 where
  "mat_id = Mat3 (Vec3 1 0 0) (Vec3 0 1 0) (Vec3 0 0 1)"

definition world_of :: "obj \<Rightarrow> vec3 \<Rightarrow> vec3" where
  "world_of ob v = location ob + mat_apply (basis ob) v"

definition world_verts :: "obj \<Rightarrow> vec3 list" where
  "world_verts ob = map (world_of ob) (verts (data ob))"

definition obj_bound_box :: "obj \<Rightarrow> vec3 list" where
  "obj_bound_box ob =
     (if otype ob = MESH then bound_box (data ob) else bound_box \<lparr>verts = [], faces = []\<rparr>)"

definition selected_objects :: "scene \<Rightarrow> nat list" where
  "selected_objects s = filter (\<lambda>i. i \<in> set (selected s)) [0..<length (objects s)]"

definition select_all_deselect :: "scene \<Rightarrow> scene" where
  "select_all_deselect s = s\<lparr>selected := []\<rparr>"

definition set_active :: "nat \<Rightarrow> scene \<Rightarrow> scene" where
  "set_active i s = s\<lparr>active := Some i\<rparr>"

definition select_set :: "nat \<Rightarrow> bool \<Rightarrow> scene \<Rightarrow> scene" where
  "select_set i b s =
     s\<lparr>selected := (if b then (if i \<in> set (selected s) then selected s else selected s @ [i])
                   else removeAll i (selected s))\<rparr>"

definition set_location :: "nat \<Rightarrow> vec3 \<Rightarrow> scene \<Rightarrow> scene" where
  "set_location i v s =
     s\<lparr>objects := (objects s)[i := (objects s ! i)\<lparr>location := v\<rparr>]\<rparr>"

definition apply_obj_transform :: "obj \<Rightarrow> obj" where
  "apply_obj_transform ob =
     ob\<lparr>data := mesh_map (world_of ob) (data ob), location := 0, basis := mat_id\<rparr>"

definition transform_apply :: "scene \<Rightarrow> (scene, unit) outcome" where
  "transform_apply s =
     (if mode s \<noteq> OBJECT
      then (Inl (RuntimeError ''Operator bpy.ops.object.transform_apply.poll() failed''), s)
      else (Inr (), s\<lparr>objects := map_where (\<lambda>i. i \<in> set (selected s))
              apply_obj_transform (objects s)\<rparr>))"

definition mode_set :: "mode \<Rightarrow> scene \<Rightarrow> (scene, unit) outcome" where
  "mode_set md s =
     (case active s of
        None \<Rightarrow> (Inl (RuntimeError ''Operator bpy.ops.object.mode_set.poll() failed''), s)
      | Some a \<Rightarrow>
          if length (objects s) \<le> a
          then (Inl (RuntimeError ''Operator bpy.ops.object.mode_set.poll() failed''), s)
          else if md = OBJECT then (Inr (), s\<lparr>mode := OBJECT, editing := []\<rparr>)
          else if otype (objects s ! a) \<noteq> MESH
          then (Inl (TypeError ''enum \"EDIT\" not found in ('OBJECT')''), s)
          else (Inr (), s\<lparr>mode := EDIT,
                  editing := a # filter (\<lambda>i. i \<noteq> a \<and> otype (objects s ! i) = MESH)
                                        (selected_objects s)\<rparr>))"

definition separate_obj :: "nat \<Rightarrow> scene \<Rightarrow> scene" where
  "separate_obj i s =
     (case loose_parts (data (objects s ! i)) of
        [] \<Rightarrow> s
      | p # ps \<Rightarrow>
          (let ob = objects s ! i; n = length (objects s)
           in s\<lparr>objects := (objects s)[i := ob\<lparr>data := p\<rparr>] @ map (\<lambda>q. ob\<lparr>data := q\<rparr>) ps,
                selected := selected s @ [n..<n + length ps]\<rparr>))"

definition mesh_separate_loose :: "scene \<Rightarrow> (scene, unit) outcome" where
  "mesh_separate_loose s =
     (if mode s \<noteq> EDIT
      then (Inl (RuntimeError ''Operator bpy.ops.mesh.separate.poll() failed''), s)
      else (Inr (), fold separate_obj (editing s) s))"

text \<open>The script's \<open>select\<close> (lines 6--9): deselect everything, make the object
  active, select it.\<close>

definition select :: "nat \<Rightarrow> scene \<Rightarrow> scene" where
  "select ob s = select_set ob True (set_active ob (select_all_deselect s))"

text \<open>How an operator that adds objects relates the scene after it to the scene
  before: old objects keep their type and transform, every new object copies
  the type and transform of one of the objects \<open>K\<close> it was split from, new
  objects are selected, and the active object does not change.\<close>

definition same_transform :: "obj \<Rightarrow> obj \<Rightarrow> bool" where
  "same_transform a b \<longleftrightarrow> otype a = otype b \<and> location a = location b \<and> basis a = basis b"

definition extends_with :: "nat list \<Rightarrow> scene \<Rightarrow> scene \<Rightarrow> bool" where
  "extends_with K s s' \<longleftrightarrow>
     length (objects s) \<le> length (objects s')
     \<and> (\<forall>j < length (objects s). same_transform (objects s ! j) (objects s' ! j))
     \<and> (\<forall>j. length (objects s) \<le> j \<and> j < length (objects s') \<longrightarrow>
          (\<exists>k \<in> set K. k < length (objects s) \<and> same_transform (objects s ! k) (objects s' ! j)))
     \<and> set (selected s') = set (selected s) \<union> {length (objects s)..<length (objects s')}
     \<and> active s' = active s"

text \<open>The faces of all objects of the scene, each as the list of its corner
  positions in its object's local frame.\<close>

definition scene_faces :: "scene \<Rightarrow> vec3 list list" where
  "scene_faces s = concat (map (\<lambda>ob. face_coords (data ob)) (objects s))"

subsection \<open>Transforms\<close>

lemma mat_apply_id [simp]: "mat_apply mat_id v = v"
  by (cases v) (simp add: mat_id_def dot_def)

lemma world_of_identity [simp]:
  "location ob = 0 \<Longrightarrow> basis ob = mat_id \<Longrightarrow> world_of ob v = v"
  by (simp add: world_of_def)

lemma world_verts_apply_obj_transform [simp]:
  "world_verts (apply_obj_transform ob) = world_verts ob"
  by (simp add: world_verts_def apply_obj_transform_def world_of_def)

lemma apply_obj_transform_simps [simp]:
  "location (apply_obj_transform ob) = 0" "basis (apply_obj_transform ob) = mat_id"
  "otype (apply_obj_transform ob) = otype ob"
  "verts (data (apply_obj_transform ob)) = world_verts ob"
  "faces (data (apply_obj_transform ob)) = faces (data ob)"
  by (simp_all add: apply_obj_transform_def world_verts_def)

lemma transform_apply_OBJECT:
  "mode s = OBJECT \<Longrightarrow> transform_apply s =
     (Inr (), s\<lparr>objects := map_where (\<lambda>i. i \<in> set (selected s)) apply_obj_transform (objects s)\<rparr>)"
  by (simp add: transform_apply_def)

lemma transform_apply_EDIT:
  "mode s = EDIT \<Longrightarrow> transform_apply s =
     (Inl (RuntimeError ''Operator bpy.ops.object.transform_apply.poll() failed''), s)"
  by (simp add: transform_apply_def)

lemma transform_apply_identity:
  assumes "transform_apply s = (Inr (), s1)" "k \<in> set (selected s)"
    and "k < length (objects s)"
  shows "location (objects s1 ! k) = 0 \<and> basis (objects s1 ! k) = mat_id"
  using assms by (auto simp: transform_apply_def split: if_splits)

lemma transform_apply_frame:
  assumes "transform_apply s = (Inr (), s1)"
  shows "mode s1 = mode s" "active s1 = active s" "selected s1 = selected s"
    "length (objects s1) = length (objects s)"
    "\<And>k. k < length (objects s) \<Longrightarrow> otype (objects s1 ! k) = otype (objects s ! k)"
  using assms by (auto simp: transform_apply_def split: if_splits)

subsection \<open>Selection\<close>

lemma set_selected_objects:
  "set (selected_objects s) = {i. i < length (objects s) \<and> i \<in> set (selected s)}"
  by (auto simp: selected_objects_def)

lemma distinct_selected_objects [simp]: "distinct (selected_objects s)"
  by (simp add: selected_objects_def)

lemma select_simps [simp]:
  "selected (select ob s) = [ob]" "active (select ob s) = Some ob"
  "objects (select ob s) = objects s" "mode (select ob s) = mode s"
  "editing (select ob s) = editing s"
  by (simp_all add: select_def select_set_def set_active_def select_all_deselect_def)

lemma set_location_simps [simp]:
  "length (objects (set_location i v s)) = length (objects s)"
  "selected (set_location i v s) = selected s" "active (set_location i v s) = active s"
  "mode (set_location i v s) = mode s" "editing (set_location i v s) = editing s"
  by (simp_all add: set_location_def)

lemma nth_objects_set_location:
  "j < length (objects s) \<Longrightarrow> objects (set_location i v s) ! j =
     (if i = j then (objects s ! i)\<lparr>location := v\<rparr> else objects s ! j)"
  by (simp add: set_location_def)

subsection \<open>Separation into loose parts\<close>

lemma same_transform_refl [simp]: "same_transform a a"
  by (simp add: same_transform_def)

lemma same_transform_trans:
  "same_transform a b \<Longrightarrow> same_transform b c \<Longrightarrow> same_transform a c"
  by (simp add: same_transform_def)

lemma same_transform_data [simp]: "same_transform a (a\<lparr>data := d\<rparr>)"
  by (simp add: same_transform_def)

lemma extends_with_refl: "extends_with K s s"
  by (auto simp: extends_with_def)

lemma extends_with_trans:
  assumes "extends_with K s s1" "extends_with K s1 s2"
  shows "extends_with K s s2"
proof -
  from assms have len: "length (objects s) \<le> length (objects s1)"
    "length (objects s1) \<le> length (objects s2)" by (simp_all add: extends_with_def)
  have old: "same_transform (objects s ! j) (objects s2 ! j)" if "j < length (objects s)" for j
    using assms that len by (auto simp: extends_with_def intro: same_transform_trans)
  have new: "\<exists>k \<in> set K. k < length (objects s) \<and> same_transform (objects s ! k) (objects s2 ! j)"
    if "length (objects s) \<le> j" "j < length (objects s2)" for j
  proof (cases "j < length (objects s1)")
    case True
    with assms that obtain k where "k \<in> set K" "k < length (objects s)"
        "same_transform (objects s ! k) (objects s1 ! j)"
      by (auto simp: extends_with_def)
    moreover have "same_transform (objects s1 ! j) (objects s2 ! j)"
      using assms(2) True by (simp add: extends_with_def)
    ultimately show ?thesis by (blast intro: same_transform_trans)
  next
    case False
    with assms(2) that have "\<exists>k \<in> set K. k < length (objects s1) \<and>
        same_transform (objects s1 ! k) (objects s2 ! j)"
      unfolding extends_with_def by simp
    then obtain k where k: "k \<in> set K" "k < length (objects s1)"
        "same_transform (objects s1 ! k) (objects s2 ! j)"
      by blast
    show ?thesis
    proof (cases "k < length (objects s)")
      case True
      with assms(1) k show ?thesis
        by (auto simp: extends_with_def intro: same_transform_trans)
    next
      case False
      with assms(1) k have "\<exists>k' \<in> set K. k' < length (objects s) \<and>
          same_transform (objects s ! k') (objects s1 ! k)"
        unfolding extends_with_def by simp
      then obtain k' where "k' \<in> set K" "k' < length (objects s)"
          "same_transform (objects s ! k') (objects s1 ! k)"
        by blast
      with k show ?thesis by (blast intro: same_transform_trans)
    qed
  qed
  from assms len old new show ?thesis
    by (auto simp: extends_with_def)
qed

lemma separate_obj_simps [simp]:
  "mode (separate_obj i s) = mode s" "editing (separate_obj i s) = editing s"
  "active (separate_obj i s) = active s"
  by (simp_all add: separate_obj_def Let_def split: list.splits)

lemma separate_obj_extends:
  assumes "i < length (objects s)" "i \<in> set K"
  shows "extends_with K s (separate_obj i s)"
proof (cases "loose_parts (data (objects s ! i))")
  case Nil
  then show ?thesis by (simp add: separate_obj_def extends_with_refl)
next
  case (Cons p ps)
  with assms show ?thesis
    by (auto simp: separate_obj_def extends_with_def nth_append nth_list_update Let_def)
qed

lemma length_separate_obj: "length (objects s) \<le> length (objects (separate_obj i s))"
  by (simp add: separate_obj_def Let_def split: list.splits)

lemma length_separate_obj_parts:
  "i < length (objects s) \<Longrightarrow>
   length (objects (separate_obj i s)) = length (objects s) + (length (loose_parts (data (objects s ! i))) - 1)"
  by (simp add: separate_obj_def Let_def split: list.splits)

lemma fold_separate_obj_extends:
  "set is \<subseteq> set K \<Longrightarrow> \<forall>i \<in> set is. i < length (objects s) \<Longrightarrow>
   extends_with K s (fold separate_obj is s)"
proof (induction "is" arbitrary: s)
  case Nil
  then show ?case by (simp add: extends_with_refl)
next
  case (Cons i "is")
  have e1: "extends_with K s (separate_obj i s)"
    using Cons.prems by (intro separate_obj_extends) auto
  have "\<forall>j \<in> set is. j < length (objects (separate_obj i s))"
    using Cons.prems length_separate_obj [of s i] by auto
  with Cons.prems have "extends_with K (separate_obj i s) (fold separate_obj is (separate_obj i s))"
    by (intro Cons.IH) auto
  with e1 show ?case by (auto intro: extends_with_trans)
qed

lemma fold_separate_obj_simps [simp]:
  "mode (fold separate_obj is s) = mode s" "editing (fold separate_obj is s) = editing s"
  "active (fold separate_obj is s) = active s"
  by (induction "is" arbitrary: s) simp_all

lemma length_fold_separate_obj: "length (objects s) \<le> length (objects (fold separate_obj is s))"
  by (induction "is" arbitrary: s) (auto intro: le_trans length_separate_obj)

lemma mset_scene_faces_separate_obj:
  assumes "i < length (objects s)"
  shows "mset (scene_faces (separate_obj i s)) = mset (scene_faces s)"
proof (cases "loose_parts (data (objects s ! i))")
  case Nil
  then show ?thesis by (simp add: separate_obj_def)
next
  case (Cons p ps)
  let ?fc = "\<lambda>ob. face_coords (data ob)"
  let ?ob = "objects s ! i"
  have parts: "mset (face_coords p) + mset (concat (map face_coords ps)) = mset (face_coords (data ?ob))"
    using loose_parts_keep_faces [of "data ?ob"] Cons by simp
  have upd: "mset (concat ((map ?fc (objects s))[i := face_coords p])) + mset (?fc ?ob)
             = mset (concat (map ?fc (objects s))) + mset (face_coords p)"
    using mset_concat_list_update [of i "map ?fc (objects s)"] assms by simp
  have "mset (scene_faces (separate_obj i s)) + mset (?fc ?ob)
        = mset (concat ((map ?fc (objects s))[i := face_coords p])) + mset (?fc ?ob)
          + mset (concat (map face_coords ps))"
    using Cons by (simp add: separate_obj_def scene_faces_def Let_def map_update comp_def)
  also have "\<dots> = mset (scene_faces s) + mset (?fc ?ob)"
    using upd parts by (simp add: scene_faces_def add_ac)
  finally show ?thesis by simp
qed

lemma mset_scene_faces_fold_separate_obj:
  "\<forall>i \<in> set is. i < length (objects s) \<Longrightarrow>
   mset (scene_faces (fold separate_obj is s)) = mset (scene_faces s)"
proof (induction "is" arbitrary: s)
  case (Cons i "is")
  have "\<forall>j \<in> set is. j < length (objects (separate_obj i s))"
    using Cons.prems length_separate_obj [of s i] by auto
  with Cons.IH Cons.prems show ?case by (simp add: mset_scene_faces_separate_obj)
qed simp

end
