(* ===== verification/Bisect.thy ===== *)
theory Bisect
  imports Mesh Closure
begin

text \<open>
  The two \<^verbatim>\<open>bmesh.ops\<close> operators that \<^verbatim>\<open>perform_cuts\<close> calls (lines 13--14),
  modelled from Blender's documentation of them.
  \<^item> \<open>bisect_plane m co no\<close> (\<^verbatim>\<open>bmesh.ops.bisect_plane\<close> with \<^verbatim>\<open>dist = 0\<close>):
    every face edge whose ends lie strictly on opposite sides of the plane
    through \<open>co\<close> with normal \<open>no\<close> gets one new vertex at the intersection
    (\<open>crossing_edges\<close>, \<open>xpoint\<close>), shared by the faces of that edge; every face
    with vertices strictly on both sides is replaced by its part on each side
    (\<open>insert_cuts\<close>, \<open>split_face\<close>).  The result's \<^verbatim>\<open>geom_cut\<close> lists the
    vertices on the plane (\<open>BMVert\<close>) and the face edges with both ends on it
    (\<open>BMEdge\<close>), new and existing.  For a convex face the two parts are exactly
    its two halves; a concave face is split by the same filter.
  \<^item> \<open>split_edges m es\<close> (\<^verbatim>\<open>bmesh.ops.split_edges\<close>): refuses anything but edges
    with a \<^verbatim>\<open>TypeError\<close>; otherwise rips the mesh along the edges
    (\<open>rip_edges\<close>): around each end vertex of a ripped edge the faces fall into
    fans, faces connected through edges that are not ripped (\<open>fan_adj\<close>, closed
    with \<open>grow\<close>); the fan of the vertex's first face keeps the vertex, every
    other fan gets a copy of it at the same position (\<open>rip_copies\<close>).
\<close>

datatype geom = BMVert nat | BMEdge nat nat | BMFace nat

definition side :: "vec3 \<Rightarrow> vec3 \<Rightarrow> vec3 \<Rightarrow> scalar" where
  "side co no p = dot (p - co) no"

definition xpoint :: "vec3 \<Rightarrow> vec3 \<Rightarrow> vec3 \<Rightarrow> vec3 \<Rightarrow> vec3" where
  "xpoint co no a b = a + vscale (side co no a / (side co no a - side co no b)) (b - a)"

definition vside :: "bmesh \<Rightarrow> vec3 \<Rightarrow> vec3 \<Rightarrow> nat \<Rightarrow> scalar" where
  "vside m co no i = side co no (verts m ! i)"

definition crossing_edges :: "bmesh \<Rightarrow> vec3 \<Rightarrow> vec3 \<Rightarrow> (nat \<times> nat) list" where
  "crossing_edges m co no =
     remdups [ekey a b. f \<leftarrow> faces m, (a, b) \<leftarrow> face_edges f,
                        vside m co no a * vside m co no b < 0]"

definition insert_cuts ::
  "bmesh \<Rightarrow> vec3 \<Rightarrow> vec3 \<Rightarrow> (nat \<times> nat) list \<Rightarrow> nat list \<Rightarrow> nat list" where
  "insert_cuts m co no ce f =
     concat (map (\<lambda>(a, b). if vside m co no a * vside m co no b < 0
                           then [a, length (verts m) + index_of ce (ekey a b)] else [a])
                 (face_edges f))"

definition split_face :: "(nat \<Rightarrow> scalar) \<Rightarrow> nat list \<Rightarrow> nat list \<Rightarrow> nat list list" where
  "split_face sd f g =
     (if list_ex (\<lambda>v. sd v < 0) f \<and> list_ex (\<lambda>v. 0 < sd v) f
      then [filter (\<lambda>v. sd v \<le> 0) g, filter (\<lambda>v. 0 \<le> sd v) g] else [f])"

definition bisect_plane :: "bmesh \<Rightarrow> vec3 \<Rightarrow> vec3 \<Rightarrow> bmesh \<times> geom list" where
  "bisect_plane m co no =
     (let ce = crossing_edges m co no;
          vs' = verts m @ map (\<lambda>(a, b). xpoint co no (verts m ! a) (verts m ! b)) ce;
          sd = (\<lambda>i. side co no (vs' ! i));
          fs' = concat (map (\<lambda>f. split_face sd f (insert_cuts m co no ce f)) (faces m));
          on_v = filter (\<lambda>i. sd i = 0) [0..<length vs'];
          on_e = remdups [ekey a b. f \<leftarrow> fs', (a, b) \<leftarrow> face_edges f, sd a = 0 \<and> sd b = 0]
      in (m\<lparr>verts := vs', faces := fs'\<rparr>, map BMVert on_v @ map (\<lambda>(a, b). BMEdge a b) on_e))"

fun is_bmedge :: "geom \<Rightarrow> bool" where
  "is_bmedge (BMEdge a b) = True"
| "is_bmedge (BMVert v) = False"
| "is_bmedge (BMFace f) = False"

definition face_has_edge :: "nat list \<Rightarrow> nat \<Rightarrow> nat \<Rightarrow> bool" where
  "face_has_edge f a b \<longleftrightarrow> ekey a b \<in> set (map (\<lambda>(x, y). ekey x y) (face_edges f))"

definition fan_adj :: "bmesh \<Rightarrow> (nat \<times> nat) list \<Rightarrow> nat \<Rightarrow> nat \<Rightarrow> nat \<Rightarrow> bool" where
  "fan_adj m E v i j \<longleftrightarrow>
     list_ex (\<lambda>w. ekey v w \<notin> set E \<and> face_has_edge (faces m ! i) v w
                  \<and> face_has_edge (faces m ! j) v w) (faces m ! i)"

definition fan_rep :: "bmesh \<Rightarrow> (nat \<times> nat) list \<Rightarrow> nat \<Rightarrow> nat \<Rightarrow> nat" where
  "fan_rep m E v i = Min (set (grow (fan_adj m E v) (length (faces m)) [i]))"

definition star :: "bmesh \<Rightarrow> nat \<Rightarrow> nat list" where
  "star m v = filter (\<lambda>i. v \<in> set (faces m ! i)) [0..<length (faces m)]"

definition edge_ends :: "(nat \<times> nat) list \<Rightarrow> nat list" where
  "edge_ends E = remdups (concat (map (\<lambda>(a, b). [a, b]) E))"

definition rip_copies :: "bmesh \<Rightarrow> (nat \<times> nat) list \<Rightarrow> (nat \<times> nat) list" where
  "rip_copies m E =
     remdups [(v, fan_rep m E v i). v \<leftarrow> edge_ends E, i \<leftarrow> star m v,
                                   fan_rep m E v i \<noteq> hd (star m v)]"

definition rip_vertex ::
  "bmesh \<Rightarrow> (nat \<times> nat) list \<Rightarrow> (nat \<times> nat) list \<Rightarrow> nat \<Rightarrow> nat \<Rightarrow> nat" where
  "rip_vertex m E cp i v =
     (if (v, fan_rep m E v i) \<in> set cp
      then length (verts m) + index_of cp (v, fan_rep m E v i) else v)"

definition rip_edges :: "bmesh \<Rightarrow> (nat \<times> nat) list \<Rightarrow> bmesh" where
  "rip_edges m E =
     (let cp = rip_copies m E
      in m\<lparr>verts := verts m @ map (\<lambda>(v, r). verts m ! v) cp,
           faces := map (\<lambda>(i, f). map (rip_vertex m E cp i) f)
                        (zip [0..<length (faces m)] (faces m))\<rparr>)"

definition split_edges :: "bmesh \<Rightarrow> geom list \<Rightarrow> py_error + bmesh" where
  "split_edges m es =
     (if list_all is_bmedge es
      then Inr (rip_edges m (remdups [ekey a b. BMEdge a b \<leftarrow> es]))
      else Inl (TypeError ''split_edges: expected a sequence of BMEdge''))"

subsection \<open>Bisection\<close>

lemma side_affine:
  "side co no (a + vscale t (b - a)) = side co no a + t * (side co no b - side co no a)"
  by (simp add: side_def dot_def algebra_simps)

lemma bisect_plane_verts:
  "verts (fst (bisect_plane m co no)) =
     verts m @ map (\<lambda>(a, b). xpoint co no (verts m ! a) (verts m ! b)) (crossing_edges m co no)"
  by (simp add: bisect_plane_def Let_def)

lemma bisect_plane_faces:
  "faces (fst (bisect_plane m co no)) =
     concat (map (\<lambda>f. split_face (\<lambda>i. side co no (verts (fst (bisect_plane m co no)) ! i)) f
                         (insert_cuts m co no (crossing_edges m co no) f)) (faces m))"
  by (simp add: bisect_plane_def Let_def)

lemma split_face_one_sided:
  assumes "f \<in> set (split_face sd f0 g)"
  shows "list_all (\<lambda>v. sd v \<le> 0) f \<or> list_all (\<lambda>v. 0 \<le> sd v) f"
proof (cases "list_ex (\<lambda>v. sd v < 0) f0 \<and> list_ex (\<lambda>v. 0 < sd v) f0")
  case True
  with assms show ?thesis by (auto simp: split_face_def list_all_iff)
next
  case False
  with assms have f: "f = f0" by (simp add: split_face_def)
  show ?thesis
  proof (cases "list_ex (\<lambda>v. sd v < 0) f0")
    case True
    with False have "\<not> list_ex (\<lambda>v. 0 < sd v) f0" by simp
    then show ?thesis using f by (auto simp: list_all_iff list_ex_iff)
  next
    case False
    then show ?thesis using f by (auto simp: list_all_iff list_ex_iff)
  qed
qed

lemma bisect_plane_one_sided:
  assumes "f \<in> set (faces (fst (bisect_plane m co no)))"
  shows "list_all (\<lambda>v. side co no (verts (fst (bisect_plane m co no)) ! v) \<le> 0) f \<or>
         list_all (\<lambda>v. 0 \<le> side co no (verts (fst (bisect_plane m co no)) ! v)) f"
proof -
  from assms obtain f0 where "f \<in> set (split_face
      (\<lambda>i. side co no (verts (fst (bisect_plane m co no)) ! i)) f0
      (insert_cuts m co no (crossing_edges m co no) f0))"
    by (auto simp: bisect_plane_faces)
  then show ?thesis by (rule split_face_one_sided)
qed

lemma set_insert_cuts:
  "v \<in> set (insert_cuts m co no ce f) \<Longrightarrow>
   v \<in> set f \<or> (\<exists>(a, b) \<in> set (face_edges f). vside m co no a * vside m co no b < 0
                     \<and> v = length (verts m) + index_of ce (ekey a b))"
  by (auto simp: insert_cuts_def face_edges_def split: if_splits dest: set_zip_leftD)

lemma set_split_face:
  "f \<in> set (split_face sd f0 g) \<Longrightarrow> set f \<subseteq> set f0 \<union> set g"
  by (auto simp: split_face_def split: if_splits)

lemma ekey_crossing_mem:
  assumes "f \<in> set (faces m)" "(a, b) \<in> set (face_edges f)" "vside m co no a * vside m co no b < 0"
  shows "ekey a b \<in> set (crossing_edges m co no)"
  using assms by (auto simp: crossing_edges_def)

lemma bisect_plane_idx_ok:
  assumes "idx_ok m"
  shows "idx_ok (fst (bisect_plane m co no))"
proof -
  let ?m' = "fst (bisect_plane m co no)"
  let ?ce = "crossing_edges m co no"
  have "v < length (verts ?m')" if f: "f \<in> set (faces ?m')" and v: "v \<in> set f" for f v
  proof -
    from f obtain f0 where f0: "f0 \<in> set (faces m)"
      "f \<in> set (split_face (\<lambda>i. side co no (verts ?m' ! i)) f0 (insert_cuts m co no ?ce f0))"
      by (auto simp: bisect_plane_faces)
    with v set_split_face have "v \<in> set f0 \<or> v \<in> set (insert_cuts m co no ?ce f0)" by blast
    then show ?thesis
    proof
      assume "v \<in> set f0"
      with assms f0(1) show ?thesis by (auto simp: bisect_plane_verts dest: idx_okD)
    next
      assume "v \<in> set (insert_cuts m co no ?ce f0)"
      then have "v \<in> set f0 \<or> (\<exists>(a, b) \<in> set (face_edges f0). vside m co no a * vside m co no b < 0
                     \<and> v = length (verts m) + index_of ?ce (ekey a b))"
        by (rule set_insert_cuts)
      with assms f0(1) show ?thesis
        by (auto simp: bisect_plane_verts dest: idx_okD ekey_crossing_mem [OF f0(1)])
    qed
  qed
  then show ?thesis by (auto simp: idx_ok_def list_all_iff)
qed

subsection \<open>Ripping along edges\<close>

lemma rip_edges_faces_length [simp]: "length (faces (rip_edges m E)) = length (faces m)"
  by (simp add: rip_edges_def Let_def)

lemma rip_edges_verts_prefix:
  "v < length (verts m) \<Longrightarrow> verts (rip_edges m E) ! v = verts m ! v"
  by (simp add: rip_edges_def Let_def nth_append)

lemma rip_vertex_position:
  assumes "v < length (verts m)"
  shows "verts (rip_edges m E) ! rip_vertex m E (rip_copies m E) i v = verts m ! v"
proof (cases "(v, fan_rep m E v i) \<in> set (rip_copies m E)")
  case True
  let ?cp = "rip_copies m E"
  let ?k = "index_of ?cp (v, fan_rep m E v i)"
  from True have k: "?k < length ?cp" "?cp ! ?k = (v, fan_rep m E v i)" by simp_all
  then show ?thesis using True
    by (simp add: rip_vertex_def rip_edges_def Let_def nth_append)
next
  case False
  with assms show ?thesis by (simp add: rip_vertex_def rip_edges_verts_prefix)
qed

lemma rip_edges_face:
  "i < length (faces m) \<Longrightarrow>
   faces (rip_edges m E) ! i = map (rip_vertex m E (rip_copies m E) i) (faces m ! i)"
  by (simp add: rip_edges_def Let_def)

lemma rip_edges_corners:
  assumes "idx_ok m" "i < length (faces m)"
  shows "map (\<lambda>v. verts (rip_edges m E) ! v) (faces (rip_edges m E) ! i) =
         map (\<lambda>v. verts m ! v) (faces m ! i)"
proof -
  have "\<forall>v \<in> set (faces m ! i). v < length (verts m)"
    using assms idx_okD nth_mem by blast
  with assms(2) show ?thesis
    by (simp add: rip_edges_face rip_vertex_position)
qed

lemma rip_vertex_bound:
  "v < length (verts m) \<Longrightarrow> rip_vertex m E (rip_copies m E) i v < length (verts (rip_edges m E))"
  by (simp add: rip_vertex_def rip_edges_def Let_def)

lemma rip_edges_idx_ok:
  assumes "idx_ok m"
  shows "idx_ok (rip_edges m E)"
proof -
  have "v < length (verts (rip_edges m E))" if "f \<in> set (faces (rip_edges m E))" "v \<in> set f" for f v
  proof -
    from that obtain i where i: "i < length (faces m)"
      "f = map (rip_vertex m E (rip_copies m E) i) (faces m ! i)"
      by (auto simp: in_set_conv_nth rip_edges_face)
    with that(2) obtain u where "u \<in> set (faces m ! i)" "v = rip_vertex m E (rip_copies m E) i u"
      by auto
    with assms i(1) show ?thesis using idx_okD nth_mem rip_vertex_bound by metis
  qed
  then show ?thesis by (auto simp: idx_ok_def list_all_iff)
qed

end
