(* ===== verification/Cut.thy ===== *)
theory Cut
  imports Scene Bisect
begin

text \<open>
  The script's cutting, lines 11--29 of
  \<^verbatim>\<open>src/grid cutting tools/grid_cut_blender.py\<close>.
  \<^item> \<open>cut_edge_filter\<close> is the list comprehension of line 14, which keeps the
    edges of \<^verbatim>\<open>geom_cut\<close>; \<open>perform_cut_step\<close> is one iteration of the loop of
    \<^verbatim>\<open>perform_cuts\<close> (lines 13--14): bisect at the plane through \<open>i \<cdot> dir\<close>
    with normal \<open>dir\<close>, then split the cut edges; \<open>perform_cuts\<close> is the loop
    over the range (lines 11--14).  The BMesh is the state: it is changed in
    place, and an exception keeps the changes made before it.
  \<^item> \<open>with_mesh\<close> runs BMesh operations on the edit mesh of an object: the
    BMesh returned by \<^verbatim>\<open>bmesh.from_edit_mesh\<close> is the live edit data, so its
    changes are the object's changes.  \<^verbatim>\<open>bmesh.update_edit_mesh\<close> (line 26)
    only refreshes derived display data and has no modelled effect.
  \<^item> \<open>cut_xyz\<close> is the three calls of lines 22--24, along x, y and z in turn.
  \<^item> \<open>cut\<close> is lines 16--29: enter edit mode, cut along x, y and z, separate the
    loose parts, return to object mode.  \<^verbatim>\<open>bpy.context.object\<close> is the
    active object; reading \<^verbatim>\<open>.data\<close> of \<^verbatim>\<open>None\<close> raises.
\<close>

definition cut_edge_filter :: "geom list \<Rightarrow> geom list" where
  "cut_edge_filter gs = filter is_bmedge gs"

definition perform_cut_step :: "vec3 \<Rightarrow> int \<Rightarrow> bmesh \<Rightarrow> (bmesh, unit) outcome" where
  "perform_cut_step dir i target =
     (let (target', geom_cut) = bisect_plane target (vscale (of_int i) dir) dir
      in case split_edges target' (cut_edge_filter geom_cut) of
           Inl e \<Rightarrow> (Inl e, target')
         | Inr target'' \<Rightarrow> (Inr (), target''))"

fun perform_cuts :: "int list \<Rightarrow> vec3 \<Rightarrow> bmesh \<Rightarrow> (bmesh, unit) outcome" where
  "perform_cuts [] dir target = (Inr (), target)"
| "perform_cuts (i # is) dir target =
     py_bind (perform_cut_step dir i target) (\<lambda>_. perform_cuts is dir)"

definition with_mesh :: "nat \<Rightarrow> (bmesh \<Rightarrow> (bmesh, unit) outcome) \<Rightarrow> scene \<Rightarrow> (scene, unit) outcome" where
  "with_mesh a g s =
     (case g (data (objects s ! a)) of
        (r, bm) \<Rightarrow> (r, s\<lparr>objects := (objects s)[a := (objects s ! a)\<lparr>data := bm\<rparr>]\<rparr>))"

definition cut_xyz :: "int list \<Rightarrow> bmesh \<Rightarrow> (bmesh, unit) outcome" where
  "cut_xyz rng bm =
     py_bind (perform_cuts rng (Vec3 1 0 0) bm) (\<lambda>_ bm1.
     py_bind (perform_cuts rng (Vec3 0 1 0) bm1) (\<lambda>_ bm2.
     perform_cuts rng (Vec3 0 0 1) bm2))"

text \<open>The end of \<open>cut\<close> (lines 28--29): separate the loose parts, back to
  object mode.\<close>

definition cut_separate :: "scene \<Rightarrow> (scene, unit) outcome" where
  "cut_separate s = py_bind (mesh_separate_loose s) (\<lambda>_ s'. mode_set OBJECT s')"

definition cut :: "int list \<Rightarrow> scene \<Rightarrow> (scene, unit) outcome" where
  "cut rng s =
     py_bind (mode_set EDIT s) (\<lambda>_ s1.
       case active s1 of
         None \<Rightarrow> (Inl (AttributeError ''NoneType object has no attribute data''), s1)
       | Some a \<Rightarrow>
           py_bind (with_mesh a (cut_xyz rng) s1) (\<lambda>_ s2. cut_separate s2))"

text \<open>A square from (0,0,0) to (2,1,0), for the witnesses.\<close>

abbreviation ex_sq :: bmesh where
  "ex_sq \<equiv> \<lparr>verts = [Vec3 0 0 0, Vec3 2 0 0, Vec3 2 1 0, Vec3 0 1 0], faces = [[0, 1, 2, 3]]\<rparr>"

text \<open>The two triangles of \<open>ex_two_tris\<close> as the mesh of the active object, in
  edit mode.\<close>

abbreviation ex_two_tris_scene :: scene where
  "ex_two_tris_scene \<equiv> \<lparr>objects = [\<lparr>otype = MESH, location = 0, basis = mat_id, data = ex_two_tris\<rparr>],
     active = Some 0, selected = [0], mode = EDIT, editing = [0]\<rparr>"

subsection \<open>The cutting loop never raises\<close>

lemma list_all_cut_edge_filter: "list_all is_bmedge (cut_edge_filter gs)"
  by (simp add: cut_edge_filter_def list_all_iff)

lemma split_edges_cut_edge_filter:
  "\<exists>m'. split_edges m (cut_edge_filter gs) = Inr m'"
  by (simp add: split_edges_def list_all_cut_edge_filter)

lemma perform_cut_step_ok: "\<exists>bm'. perform_cut_step dir i bm = (Inr (), bm')"
proof -
  obtain bm1 g where b: "bisect_plane bm (vscale (of_int i) dir) dir = (bm1, g)"
    by (cases "bisect_plane bm (vscale (of_int i) dir) dir")
  obtain bm2 where "split_edges bm1 (cut_edge_filter g) = Inr bm2"
    using split_edges_cut_edge_filter by blast
  with b show ?thesis by (simp add: perform_cut_step_def)
qed

lemma perform_cuts_ok: "\<exists>bm'. perform_cuts rng dir bm = (Inr (), bm')"
proof (induction rng arbitrary: bm)
  case (Cons i rng)
  obtain bm1 where "perform_cut_step dir i bm = (Inr (), bm1)"
    using perform_cut_step_ok by blast
  with Cons.IH [of bm1] show ?case by simp
qed simp

lemma perform_cut_step_eq:
  "perform_cut_step dir i bm =
     (Inr (), rip_edges (fst (bisect_plane bm (vscale (of_int i) dir) dir))
        (remdups [ekey a b. BMEdge a b \<leftarrow> cut_edge_filter
                   (snd (bisect_plane bm (vscale (of_int i) dir) dir))]))"
  by (simp add: perform_cut_step_def split_edges_def list_all_cut_edge_filter split: prod.splits)

lemma perform_cut_step_idx_ok:
  "idx_ok bm \<Longrightarrow> perform_cut_step dir i bm = (r, bm') \<Longrightarrow> idx_ok bm'"
  by (auto simp: perform_cut_step_eq intro: rip_edges_idx_ok bisect_plane_idx_ok)

lemma perform_cut_step_one_sided_aux:
  assumes "idx_ok bm" "perform_cut_step dir i bm = (r, bm')" "f \<in> set (faces bm')"
  shows "list_all (\<lambda>v. side (vscale (of_int i) dir) dir (verts bm' ! v) \<le> 0) f \<or>
         list_all (\<lambda>v. 0 \<le> side (vscale (of_int i) dir) dir (verts bm' ! v)) f"
proof -
  let ?co = "vscale (of_int i) dir"
  let ?b = "fst (bisect_plane bm ?co dir)"
  let ?E = "remdups [ekey a b. BMEdge a b \<leftarrow> cut_edge_filter (snd (bisect_plane bm ?co dir))]"
  have bm': "bm' = rip_edges ?b ?E" using assms(2) by (simp add: perform_cut_step_eq)
  from assms(3) bm' obtain k where k: "k < length (faces ?b)" "f = faces (rip_edges ?b ?E) ! k"
    by (auto simp: in_set_conv_nth)
  have ok: "idx_ok ?b" using assms(1) by (rule bisect_plane_idx_ok)
  have corners: "map (\<lambda>v. verts bm' ! v) f = map (\<lambda>v. verts ?b ! v) (faces ?b ! k)"
    using rip_edges_corners [OF ok k(1)] k(2) bm' by simp
  have "list_all (\<lambda>v. side ?co dir (verts ?b ! v) \<le> 0) (faces ?b ! k) \<or>
        list_all (\<lambda>v. 0 \<le> side ?co dir (verts ?b ! v)) (faces ?b ! k)"
    using k(1) by (intro bisect_plane_one_sided) simp
  then have "list_all (\<lambda>p. side ?co dir p \<le> 0) (map (\<lambda>v. verts ?b ! v) (faces ?b ! k)) \<or>
        list_all (\<lambda>p. 0 \<le> side ?co dir p) (map (\<lambda>v. verts ?b ! v) (faces ?b ! k))"
    by (simp add: list_all_iff)
  then show ?thesis
    unfolding corners [symmetric] by (simp add: list_all_iff)
qed

lemma with_mesh_ok:
  assumes "g (data (objects s ! a)) = (Inr (), bm)"
  shows "with_mesh a g s = (Inr (), s\<lparr>objects := (objects s)[a := (objects s ! a)\<lparr>data := bm\<rparr>]\<rparr>)"
  using assms by (simp add: with_mesh_def)

lemma extends_with_set_data:
  "extends_with K s (s\<lparr>objects := (objects s)[a := (objects s ! a)\<lparr>data := bm\<rparr>]\<rparr>)"
proof -
  have "same_transform (objects s ! j) ((objects s)[a := (objects s ! a)\<lparr>data := bm\<rparr>] ! j)"
    if "j < length (objects s)" for j
    using that by (cases "a = j") (auto simp: same_transform_def)
  then show ?thesis by (auto simp: extends_with_def)
qed

lemma cut_ok:
  assumes "mode s = OBJECT" "active s = Some a" "a < length (objects s)"
    and "otype (objects s ! a) = MESH"
  shows "\<exists>s'. cut rng s = (Inr (), s') \<and> mode s' = OBJECT \<and>
           extends_with (a # selected_objects s) s s'"
proof -
  let ?K = "a # selected_objects s"
  obtain s1 where m1: "mode_set EDIT s = (Inr (), s1)" and s1: "s1 = s\<lparr>mode := EDIT,
      editing := a # filter (\<lambda>i. i \<noteq> a \<and> otype (objects s ! i) = MESH) (selected_objects s)\<rparr>"
    using assms by (simp add: mode_set_def)
  obtain bm1 where c1: "perform_cuts rng (Vec3 1 0 0) (data (objects s1 ! a)) = (Inr (), bm1)"
    using perform_cuts_ok by blast
  obtain bm2 where c2: "perform_cuts rng (Vec3 0 1 0) bm1 = (Inr (), bm2)"
    using perform_cuts_ok by blast
  obtain bm3 where c3: "perform_cuts rng (Vec3 0 0 1) bm2 = (Inr (), bm3)"
    using perform_cuts_ok by blast
  let ?s2 = "s1\<lparr>objects := (objects s1)[a := (objects s1 ! a)\<lparr>data := bm3\<rparr>]\<rparr>"
  have w: "with_mesh a (cut_xyz rng) s1 = (Inr (), ?s2)"
    by (rule with_mesh_ok) (simp add: cut_xyz_def c1 c2 c3)
  let ?s3 = "fold separate_obj (editing ?s2) ?s2"
  have sep: "mesh_separate_loose ?s2 = (Inr (), ?s3)"
    using s1 by (simp add: mesh_separate_loose_def)
  have e2: "extends_with ?K s ?s2"
    using s1 extends_with_set_data [of ?K s a bm3] by (simp add: extends_with_def)
  have idx: "\<forall>i \<in> set (editing ?s2). i < length (objects ?s2)"
    using s1 assms(3) by (auto simp: set_selected_objects)
  have "set (editing ?s2) \<subseteq> set ?K" using s1 by auto
  with idx have e3: "extends_with ?K ?s2 ?s3" by (intro fold_separate_obj_extends) auto
  from e2 e3 have e23: "extends_with ?K s ?s3" by (rule extends_with_trans)
  then have "active ?s3 = Some a" "a < length (objects ?s3)"
    using assms(2,3) by (auto simp: extends_with_def)
  then have "mode_set OBJECT ?s3 = (Inr (), ?s3\<lparr>mode := OBJECT, editing := []\<rparr>)"
    by (simp add: mode_set_def)
  moreover have "extends_with ?K s (?s3\<lparr>mode := OBJECT, editing := []\<rparr>)"
    using e23 by (simp add: extends_with_def)
  moreover have "active s1 = Some a" using s1 assms(2) by simp
  ultimately show ?thesis
    using m1 w sep by (simp add: cut_def cut_separate_def)
qed

subsection \<open>Properties of the cutting\<close>

text \<open>C11: the three cutting loops of \<open>cut\<close> never raise, whatever the mesh and
  the range: the comprehension on line 14 hands \<^verbatim>\<open>split_edges\<close> only edges,
  which it accepts.\<close>

theorem cut_xyz_never_raises: "\<exists>bm'. cut_xyz rng bm = (Inr (), bm')"
proof -
  obtain bm1 where "perform_cuts rng (Vec3 1 0 0) bm = (Inr (), bm1)"
    using perform_cuts_ok by blast
  moreover obtain bm2 where "perform_cuts rng (Vec3 0 1 0) bm1 = (Inr (), bm2)"
    using perform_cuts_ok by blast
  moreover obtain bm3 where "perform_cuts rng (Vec3 0 0 1) bm2 = (Inr (), bm3)"
    using perform_cuts_ok by blast
  ultimately show ?thesis by (simp add: cut_xyz_def)
qed

text \<open>C12: after one iteration of the loop of \<open>perform_cuts\<close> every face of the
  mesh lies on one closed side of that iteration's plane through \<open>i \<cdot> dir\<close>
  with normal \<open>dir\<close>: bisection splits every face that crosses the plane, and
  ripping the cut edges moves no corner.\<close>

theorem perform_cut_step_one_sided:
  assumes "idx_ok bm" "perform_cut_step dir i bm = (r, bm')" "f \<in> set (faces bm')"
  shows "list_all (\<lambda>v. side (vscale (of_int i) dir) dir (verts bm' ! v) \<le> 0) f \<or>
         list_all (\<lambda>v. 0 \<le> side (vscale (of_int i) dir) dir (verts bm' ! v)) f"
  using assms by (rule perform_cut_step_one_sided_aux)

theorem perform_cut_step_one_sided_witness:
  "list_all (\<lambda>v. side (vscale (of_int 1) (Vec3 1 0 0)) (Vec3 1 0 0)
       (verts (snd (perform_cut_step (Vec3 1 0 0) 1 ex_sq)) ! v) \<le> 0) [6, 1, 2, 7] \<or>
   list_all (\<lambda>v. 0 \<le> side (vscale (of_int 1) (Vec3 1 0 0)) (Vec3 1 0 0)
       (verts (snd (perform_cut_step (Vec3 1 0 0) 1 ex_sq)) ! v)) [6, 1, 2, 7]"
proof -
  have f: "faces (snd (perform_cut_step (Vec3 1 0 0) 1 ex_sq)) = [[0, 4, 5, 3], [6, 1, 2, 7]]"
    by code_simp
  have ok: "idx_ok ex_sq" by (simp add: idx_ok_def)
  show ?thesis
    using perform_cut_step_one_sided [OF ok, of "Vec3 1 0 0" 1
        "fst (perform_cut_step (Vec3 1 0 0) 1 ex_sq)" "snd (perform_cut_step (Vec3 1 0 0) 1 ex_sq)"
        "[6, 1, 2, 7]"] f
    by simp
qed

text \<open>C13: the end of \<open>cut\<close> (lines 28--29) succeeds from edit mode and loses,
  duplicates or moves no face: the faces of all objects of the scene, as lists
  of corner positions, are the same multiset before and after the separation
  into loose parts.\<close>

theorem cut_separate_keeps_faces:
  assumes "mode s = EDIT" "active s = Some a" "a < length (objects s)"
    and "\<forall>i \<in> set (editing s). i < length (objects s)"
  shows "\<exists>s'. cut_separate s = (Inr (), s') \<and> mode s' = OBJECT \<and>
           mset (scene_faces s') = mset (scene_faces s)"
proof -
  let ?s3 = "fold separate_obj (editing s) s"
  have sep: "mesh_separate_loose s = (Inr (), ?s3)"
    using assms(1) by (simp add: mesh_separate_loose_def)
  have "a < length (objects ?s3)"
    using assms(3) length_fold_separate_obj [of s "editing s"] by simp
  then have "mode_set OBJECT ?s3 = (Inr (), ?s3\<lparr>mode := OBJECT, editing := []\<rparr>)"
    using assms(2) by (simp add: mode_set_def)
  moreover have "mset (scene_faces ?s3) = mset (scene_faces s)"
    using assms(4) by (rule mset_scene_faces_fold_separate_obj)
  ultimately show ?thesis using sep by (simp add: cut_separate_def scene_faces_def)
qed

theorem cut_separate_keeps_faces_witness:
  "\<exists>s'. cut_separate ex_two_tris_scene = (Inr (), s') \<and> mode s' = OBJECT \<and>
        mset (scene_faces s') = mset (scene_faces ex_two_tris_scene)"
  by (rule cut_separate_keeps_faces [where a = 0]) simp_all

lemma loose_groups_nonempty: "faces m \<noteq> [] \<Longrightarrow> loose_groups m \<noteq> []"
  by (simp add: loose_groups_def upt_conv_Cons Let_def)

lemma cut_separate_single:
  assumes "mode s = EDIT" "active s = Some a" "a < length (objects s)" "editing s = [a]"
  shows "cut_separate s = (Inr (), (separate_obj a s)\<lparr>mode := OBJECT, editing := []\<rparr>)"
proof -
  have "a < length (objects (separate_obj a s))" using assms(3) length_separate_obj [of s a] by simp
  with assms show ?thesis by (simp add: cut_separate_def mesh_separate_loose_def mode_set_def)
qed

lemma separate_obj_parts:
  assumes "a < length (objects s)" "faces (data (objects s ! a)) \<noteq> []"
  shows "map data (objects (separate_obj a s) ! a # drop (length (objects s)) (objects (separate_obj a s)))
         = loose_parts (data (objects s ! a))"
proof -
  obtain p ps where pp: "loose_parts (data (objects s ! a)) = p # ps"
    using loose_groups_nonempty [OF assms(2)] by (cases "loose_groups (data (objects s ! a))") (auto simp: loose_parts_def)
  with assms(1) show ?thesis by (simp add: separate_obj_def Let_def nth_append comp_def)
qed

text \<open>C16: the invariant of the separation the specification states: the objects
  that \<open>cut\<close>'s last lines (28--29) make from the edited mesh \<open>m\<close> (the object
  itself, then the new objects) hold the part meshes of the loose groups of
  \<open>m\<close>, and these groups are its maximal connected components: each is
  connected through faces sharing a vertex, faces of different groups share no
  vertex, and together they hold every face exactly once.\<close>

theorem cut_separate_components:
  assumes "mode s = EDIT" "active s = Some a" "a < length (objects s)" "editing s = [a]"
    and "data (objects s ! a) = m" "faces m \<noteq> []" "cut_separate s = (r, s')"
  shows "map data (objects s' ! a # drop (length (objects s)) (objects s')) = map (part_mesh m) (loose_groups m)
         \<and> (\<forall>g \<in> set (loose_groups m). \<forall>j \<in> set g. (bounded_adj (share_vertex m) (length (faces m)))\<^sup>*\<^sup>* (hd g) j)
         \<and> (\<forall>p < length (loose_groups m). \<forall>q < length (loose_groups m). p \<noteq> q \<longrightarrow>
              (\<forall>i \<in> set (loose_groups m ! p). \<forall>j \<in> set (loose_groups m ! q). set (faces m ! i) \<inter> set (faces m ! j) = {}))
         \<and> mset (concat (loose_groups m)) = mset [0..<length (faces m)]"
proof (intro conjI)
  have "s' = (separate_obj a s)\<lparr>mode := OBJECT, editing := []\<rparr>"
    using cut_separate_single [OF assms(1-4)] assms(7) by simp
  then show "map data (objects s' ! a # drop (length (objects s)) (objects s')) = map (part_mesh m) (loose_groups m)"
    using separate_obj_parts [OF assms(3)] assms(5,6) by (simp add: loose_parts_def)
  show "\<forall>g \<in> set (loose_groups m). \<forall>j \<in> set g. (bounded_adj (share_vertex m) (length (faces m)))\<^sup>*\<^sup>* (hd g) j"
    using loose_groups_connected loose_groups_member_nonempty hd_in_set by metis
  show "\<forall>p < length (loose_groups m). \<forall>q < length (loose_groups m). p \<noteq> q \<longrightarrow>
          (\<forall>i \<in> set (loose_groups m ! p). \<forall>j \<in> set (loose_groups m ! q). set (faces m ! i) \<inter> set (faces m ! j) = {})"
    using loose_groups_separated by blast
  show "mset (concat (loose_groups m)) = mset [0..<length (faces m)]"
    by (rule mset_concat_loose_groups)
qed

theorem cut_separate_components_witness:
  "map data (objects (snd (cut_separate ex_two_tris_scene)) ! 0 # drop 1 (objects (snd (cut_separate ex_two_tris_scene))))
     = map (part_mesh ex_two_tris) [[0], [1]]
   \<and> set (faces ex_two_tris ! 0) \<inter> set (faces ex_two_tris ! 1) = {}"
proof -
  have g: "loose_groups ex_two_tris = [[0], [1]]" by code_simp
  have H: "map data (objects (snd (cut_separate ex_two_tris_scene)) ! 0 #
             drop (length (objects ex_two_tris_scene)) (objects (snd (cut_separate ex_two_tris_scene))))
             = map (part_mesh ex_two_tris) (loose_groups ex_two_tris)
         \<and> (\<forall>g \<in> set (loose_groups ex_two_tris). \<forall>j \<in> set g.
              (bounded_adj (share_vertex ex_two_tris) (length (faces ex_two_tris)))\<^sup>*\<^sup>* (hd g) j)
         \<and> (\<forall>p < length (loose_groups ex_two_tris). \<forall>q < length (loose_groups ex_two_tris). p \<noteq> q \<longrightarrow>
              (\<forall>i \<in> set (loose_groups ex_two_tris ! p). \<forall>j \<in> set (loose_groups ex_two_tris ! q).
                 set (faces ex_two_tris ! i) \<inter> set (faces ex_two_tris ! j) = {}))
         \<and> mset (concat (loose_groups ex_two_tris)) = mset [0..<length (faces ex_two_tris)]"
    by (rule cut_separate_components [of ex_two_tris_scene 0 ex_two_tris "fst (cut_separate ex_two_tris_scene)"
        "snd (cut_separate ex_two_tris_scene)"]) simp_all
  then have sep: "\<forall>p < length (loose_groups ex_two_tris). \<forall>q < length (loose_groups ex_two_tris). p \<noteq> q \<longrightarrow>
              (\<forall>i \<in> set (loose_groups ex_two_tris ! p). \<forall>j \<in> set (loose_groups ex_two_tris ! q).
                 set (faces ex_two_tris ! i) \<inter> set (faces ex_two_tris ! j) = {})" by blast
  have "set (faces ex_two_tris ! 0) \<inter> set (faces ex_two_tris ! 1) = {}"
    using sep [rule_format, of 0 1 0 1] by (simp add: g)
  with H show ?thesis unfolding g by simp
qed

end
