(* ===== verification/Cells.thy ===== *)
theory Cells
  imports Cut
begin

text \<open>
  The cell property of \<open>cut_xyz\<close> (lines 22--24): once the three loops of
  \<open>perform_cuts\<close> have run, every face lies on one closed side of every plane
  that was cut, so its corners lie in one slab between consecutive cut planes
  on each axis.  A later cut keeps the property for the earlier planes because
  bisection only adds corners on the segment between two corners of the face
  it splits, and ripping moves no corner.
\<close>

definition one_sided :: "vec3 \<Rightarrow> vec3 \<Rightarrow> vec3 list \<Rightarrow> bool" where
  "one_sided co no ps \<longleftrightarrow>
     list_all (\<lambda>p. side co no p \<le> 0) ps \<or> list_all (\<lambda>p. 0 \<le> side co no p) ps"

definition faces_one_sided :: "vec3 \<Rightarrow> vec3 \<Rightarrow> bmesh \<Rightarrow> bool" where
  "faces_one_sided co no m \<longleftrightarrow> list_all (\<lambda>f. one_sided co no (map (\<lambda>v. verts m ! v) f)) (faces m)"

subsection \<open>Cut points lie between the corners they cut\<close>

lemma crossing_param:
  fixes sa sb :: scalar
  assumes "sa * sb < 0"
  shows "0 \<le> sa / (sa - sb)" "sa / (sa - sb) \<le> 1"
proof -
  from assms have "(0 < sa \<and> sb < 0) \<or> (sa < 0 \<and> 0 < sb)" by (auto simp: mult_less_0_iff)
  then show "0 \<le> sa / (sa - sb)" "sa / (sa - sb) \<le> 1"
    by (auto simp: divide_simps)
qed

lemma side_segment:
  "side co no (a + vscale t (b - a)) = (1 - t) * side co no a + t * side co no b"
  by (simp add: side_affine algebra_simps)

lemma convex_nonpos:
  fixes t x y :: scalar
  shows "0 \<le> t \<Longrightarrow> t \<le> 1 \<Longrightarrow> x \<le> 0 \<Longrightarrow> y \<le> 0 \<Longrightarrow> (1 - t) * x + t * y \<le> 0"
  by (simp add: add_nonpos_nonpos mult_nonneg_nonpos)

lemma convex_nonneg:
  fixes t x y :: scalar
  shows "0 \<le> t \<Longrightarrow> t \<le> 1 \<Longrightarrow> 0 \<le> x \<Longrightarrow> 0 \<le> y \<Longrightarrow> 0 \<le> (1 - t) * x + t * y"
  by simp

lemma xpoint_nonpos:
  assumes "side co no a * side co no b < 0" "side co' no' a \<le> 0" "side co' no' b \<le> 0"
  shows "side co' no' (xpoint co no a b) \<le> 0"
  unfolding xpoint_def side_segment using crossing_param [OF assms(1)] assms(2,3)
  by (rule convex_nonpos)

lemma xpoint_nonneg:
  assumes "side co no a * side co no b < 0" "0 \<le> side co' no' a" "0 \<le> side co' no' b"
  shows "0 \<le> side co' no' (xpoint co no a b)"
  unfolding xpoint_def side_segment using crossing_param [OF assms(1)] assms(2,3)
  by (rule convex_nonneg)

subsection \<open>Where the corners of a bisected face come from\<close>

lemma face_edges_mem: "(a, b) \<in> set (face_edges f) \<Longrightarrow> a \<in> set f \<and> b \<in> set f"
  by (auto simp: face_edges_def dest: set_zip_leftD set_zip_rightD)

lemma bisect_plane_new_vertex:
  assumes "f0 \<in> set (faces m)" "(a, b) \<in> set (face_edges f0)" "vside m co no a * vside m co no b < 0"
  shows "\<exists>a' \<in> {a, b}. \<exists>b' \<in> {a, b}. vside m co no a' * vside m co no b' < 0 \<and>
           verts (fst (bisect_plane m co no)) ! (length (verts m) + index_of (crossing_edges m co no) (ekey a b))
           = xpoint co no (verts m ! a') (verts m ! b')"
proof -
  let ?ce = "crossing_edges m co no"
  have mem: "ekey a b \<in> set ?ce" using assms by (rule ekey_crossing_mem)
  then have "verts (fst (bisect_plane m co no)) ! (length (verts m) + index_of ?ce (ekey a b))
           = xpoint co no (verts m ! min a b) (verts m ! max a b)"
    by (simp add: bisect_plane_verts nth_append ekey_def)
  moreover have "vside m co no (min a b) * vside m co no (max a b) < 0"
    using assms(3) by (cases "a \<le> b") (simp_all add: min_def max_def mult.commute)
  moreover have "min a b \<in> {a, b}" "max a b \<in> {a, b}" by (simp_all add: min_def max_def)
  ultimately show ?thesis by blast
qed

lemma bisect_plane_old_vertex:
  "idx_ok m \<Longrightarrow> f0 \<in> set (faces m) \<Longrightarrow> v \<in> set f0 \<Longrightarrow>
   verts (fst (bisect_plane m co no)) ! v = verts m ! v"
  using idx_okD [of m f0 v] by (simp add: bisect_plane_verts nth_append)

lemma bisect_plane_corner:
  assumes "idx_ok m" "f0 \<in> set (faces m)" "v \<in> set f0 \<union> set (insert_cuts m co no (crossing_edges m co no) f0)"
  shows "(\<exists>u \<in> set f0. verts (fst (bisect_plane m co no)) ! v = verts m ! u) \<or>
         (\<exists>a \<in> set f0. \<exists>b \<in> set f0. vside m co no a * vside m co no b < 0 \<and>
            verts (fst (bisect_plane m co no)) ! v = xpoint co no (verts m ! a) (verts m ! b))"
proof -
  let ?ce = "crossing_edges m co no"
  have "v \<in> set f0 \<or> (\<exists>(a, b) \<in> set (face_edges f0). vside m co no a * vside m co no b < 0
                     \<and> v = length (verts m) + index_of ?ce (ekey a b))"
    using assms(3) set_insert_cuts by blast
  then show ?thesis
  proof (elim disjE)
    assume "v \<in> set f0"
    then show ?thesis using bisect_plane_old_vertex [OF assms(1,2)] by blast
  next
    assume "\<exists>(a, b) \<in> set (face_edges f0). vside m co no a * vside m co no b < 0
                     \<and> v = length (verts m) + index_of ?ce (ekey a b)"
    then obtain e where e: "e \<in> set (face_edges f0)"
      "case e of (a, b) \<Rightarrow> vside m co no a * vside m co no b < 0
                     \<and> v = length (verts m) + index_of ?ce (ekey a b)" by blast
    obtain a b where ab: "e = (a, b)" by (cases e)
    with e have a: "(a, b) \<in> set (face_edges f0)" "vside m co no a * vside m co no b < 0"
      "v = length (verts m) + index_of ?ce (ekey a b)" by simp_all
    then obtain a' b' where "a' \<in> {a, b}" "b' \<in> {a, b}" "vside m co no a' * vside m co no b' < 0"
        "verts (fst (bisect_plane m co no)) ! v = xpoint co no (verts m ! a') (verts m ! b')"
      using bisect_plane_new_vertex [OF assms(2) a(1,2)] by blast
    moreover have "a \<in> set f0" "b \<in> set f0" using face_edges_mem [OF a(1)] by simp_all
    ultimately show ?thesis by blast
  qed
qed

lemma bisect_plane_corner_pred:
  assumes "idx_ok m" "f0 \<in> set (faces m)" "v \<in> set f0 \<union> set (insert_cuts m co no (crossing_edges m co no) f0)"
    and "\<forall>u \<in> set f0. Q (verts m ! u)"
    and "\<And>a b. side co no a * side co no b < 0 \<Longrightarrow> Q a \<Longrightarrow> Q b \<Longrightarrow> Q (xpoint co no a b)"
  shows "Q (verts (fst (bisect_plane m co no)) ! v)"
  using bisect_plane_corner [OF assms(1-3)]
proof (elim disjE)
  assume "\<exists>a \<in> set f0. \<exists>b \<in> set f0. vside m co no a * vside m co no b < 0 \<and>
            verts (fst (bisect_plane m co no)) ! v = xpoint co no (verts m ! a) (verts m ! b)"
  then obtain a b where "a \<in> set f0" "b \<in> set f0" "side co no (verts m ! a) * side co no (verts m ! b) < 0"
      "verts (fst (bisect_plane m co no)) ! v = xpoint co no (verts m ! a) (verts m ! b)"
    by (auto simp: vside_def)
  with assms(4,5) show ?thesis by simp
qed (use assms(4) in auto)

subsection \<open>Later cuts keep the earlier planes\<close>

lemma one_sided_cases:
  "one_sided co no (map (\<lambda>v. vs ! v) f) \<longleftrightarrow>
     (\<forall>u \<in> set f. side co no (vs ! u) \<le> 0) \<or> (\<forall>u \<in> set f. 0 \<le> side co no (vs ! u))"
  by (simp add: one_sided_def list_all_iff)

lemma bisect_plane_keeps_one_sided:
  assumes "idx_ok m" "faces_one_sided co' no' m"
  shows "faces_one_sided co' no' (fst (bisect_plane m co no))"
proof -
  let ?m' = "fst (bisect_plane m co no)"
  have "one_sided co' no' (map (\<lambda>v. verts ?m' ! v) f)" if f: "f \<in> set (faces ?m')" for f
  proof -
    from f obtain f0 where f0: "f0 \<in> set (faces m)"
      "f \<in> set (split_face (\<lambda>i. side co no (verts ?m' ! i)) f0 (insert_cuts m co no (crossing_edges m co no) f0))"
      by (auto simp: bisect_plane_faces)
    have sub: "v \<in> set f0 \<union> set (insert_cuts m co no (crossing_edges m co no) f0)" if "v \<in> set f" for v
      using set_split_face [OF f0(2)] that by blast
    from assms(2) f0(1) have "one_sided co' no' (map (\<lambda>v. verts m ! v) f0)"
      by (simp add: faces_one_sided_def list_all_iff)
    then consider (neg) "\<forall>u \<in> set f0. side co' no' (verts m ! u) \<le> 0"
      | (pos) "\<forall>u \<in> set f0. 0 \<le> side co' no' (verts m ! u)"
      by (auto simp: one_sided_cases)
    then show ?thesis
    proof cases
      case neg
      have "side co' no' (verts ?m' ! v) \<le> 0" if "v \<in> set f" for v
        by (rule bisect_plane_corner_pred [OF assms(1) f0(1) sub [OF that], where Q = "\<lambda>p. side co' no' p \<le> 0"])
           (use neg xpoint_nonpos in auto)
      then show ?thesis by (simp add: one_sided_cases)
    next
      case pos
      have "0 \<le> side co' no' (verts ?m' ! v)" if "v \<in> set f" for v
        by (rule bisect_plane_corner_pred [OF assms(1) f0(1) sub [OF that], where Q = "\<lambda>p. 0 \<le> side co' no' p"])
           (use pos xpoint_nonneg in auto)
      then show ?thesis by (simp add: one_sided_cases)
    qed
  qed
  then show ?thesis by (simp add: faces_one_sided_def list_all_iff)
qed

lemma rip_edges_one_sided_iff:
  "idx_ok m \<Longrightarrow> faces_one_sided co no (rip_edges m E) = faces_one_sided co no m"
  by (simp add: faces_one_sided_def list_all_length rip_edges_corners)

lemma perform_cut_step_snd:
  "perform_cut_step dir i bm = (Inr (), snd (perform_cut_step dir i bm))"
  by (simp add: perform_cut_step_eq)

lemma perform_cut_step_keeps_one_sided:
  assumes "idx_ok bm" "faces_one_sided co no bm"
  shows "faces_one_sided co no (snd (perform_cut_step dir i bm))"
proof -
  let ?b = "fst (bisect_plane bm (vscale (of_int i) dir) dir)"
  have "idx_ok ?b" using assms(1) by (rule bisect_plane_idx_ok)
  moreover have "faces_one_sided co no ?b" using assms by (rule bisect_plane_keeps_one_sided)
  ultimately show ?thesis by (simp add: perform_cut_step_eq rip_edges_one_sided_iff)
qed

lemma perform_cut_step_new_one_sided:
  assumes "idx_ok bm"
  shows "faces_one_sided (vscale (of_int i) dir) dir (snd (perform_cut_step dir i bm))"
  using perform_cut_step_one_sided_aux [OF assms perform_cut_step_snd]
  by (simp add: faces_one_sided_def one_sided_def list_all_iff)

lemma perform_cuts_Cons_eq:
  "perform_cuts (i # is) dir bm = perform_cuts is dir (snd (perform_cut_step dir i bm))"
proof -
  obtain bm1 where "perform_cut_step dir i bm = (Inr (), bm1)" using perform_cut_step_ok by blast
  then show ?thesis by simp
qed

lemma perform_cuts_idx_ok: "idx_ok bm \<Longrightarrow> idx_ok (snd (perform_cuts rng dir bm))"
proof (induction rng arbitrary: bm)
  case (Cons i rng)
  then show ?case
    using perform_cut_step_idx_ok [OF Cons.prems perform_cut_step_snd]
    by (simp del: perform_cuts.simps add: perform_cuts_Cons_eq)
qed simp

lemma perform_cuts_keeps_one_sided:
  "idx_ok bm \<Longrightarrow> faces_one_sided co no bm \<Longrightarrow> faces_one_sided co no (snd (perform_cuts rng dir bm))"
proof (induction rng arbitrary: bm)
  case (Cons i rng)
  have "idx_ok (snd (perform_cut_step dir i bm))"
    using perform_cut_step_idx_ok [OF Cons.prems(1) perform_cut_step_snd] .
  with Cons show ?case
    by (simp del: perform_cuts.simps add: perform_cuts_Cons_eq perform_cut_step_keeps_one_sided)
qed simp

lemma perform_cuts_new_one_sided:
  "idx_ok bm \<Longrightarrow> i \<in> set rng \<Longrightarrow> faces_one_sided (vscale (of_int i) dir) dir (snd (perform_cuts rng dir bm))"
proof (induction rng arbitrary: bm)
  case (Cons j rng)
  have ok: "idx_ok (snd (perform_cut_step dir j bm))"
    using perform_cut_step_idx_ok [OF Cons.prems(1) perform_cut_step_snd] .
  show ?case
  proof (cases "i \<in> set rng")
    case True
    with Cons.IH ok show ?thesis by (simp del: perform_cuts.simps add: perform_cuts_Cons_eq)
  next
    case False
    with Cons.prems have "i = j" by simp
    with ok Cons.prems(1) show ?thesis
      by (simp del: perform_cuts.simps
          add: perform_cuts_Cons_eq perform_cuts_keeps_one_sided perform_cut_step_new_one_sided)
  qed
qed simp

lemma cut_xyz_eq:
  "cut_xyz rng bm =
     (Inr (), snd (perform_cuts rng (Vec3 0 0 1) (snd (perform_cuts rng (Vec3 0 1 0)
                (snd (perform_cuts rng (Vec3 1 0 0) bm))))))"
proof -
  obtain bm1 where 1: "perform_cuts rng (Vec3 1 0 0) bm = (Inr (), bm1)" using perform_cuts_ok by blast
  obtain bm2 where 2: "perform_cuts rng (Vec3 0 1 0) bm1 = (Inr (), bm2)" using perform_cuts_ok by blast
  obtain bm3 where 3: "perform_cuts rng (Vec3 0 0 1) bm2 = (Inr (), bm3)" using perform_cuts_ok by blast
  show ?thesis by (simp add: cut_xyz_def 1 2 3)
qed

lemma cut_xyz_idx_ok: "idx_ok bm \<Longrightarrow> idx_ok (snd (cut_xyz rng bm))"
  by (simp add: cut_xyz_eq perform_cuts_idx_ok)

subsection \<open>Cutting removes no face\<close>

lemma bisect_plane_faces_length: "length (faces m) \<le> length (faces (fst (bisect_plane m co no)))"
  unfolding bisect_plane_faces by (rule length_concat_map_nonempty) (simp add: split_face_def)

lemma perform_cut_step_faces_length:
  "length (faces bm) \<le> length (faces (snd (perform_cut_step dir i bm)))"
  using bisect_plane_faces_length by (simp add: perform_cut_step_eq)

lemma perform_cuts_faces_length:
  "length (faces bm) \<le> length (faces (snd (perform_cuts rng dir bm)))"
proof (induction rng arbitrary: bm)
  case (Cons i rng)
  have "length (faces (snd (perform_cut_step dir i bm)))
        \<le> length (faces (snd (perform_cuts rng dir (snd (perform_cut_step dir i bm)))))"
    by (rule Cons.IH)
  then show ?case unfolding perform_cuts_Cons_eq by (rule le_trans [OF perform_cut_step_faces_length])
qed simp

lemma cut_xyz_faces_length: "length (faces bm) \<le> length (faces (snd (cut_xyz rng bm)))"
  unfolding cut_xyz_eq snd_conv
  by (rule le_trans [OF le_trans [OF perform_cuts_faces_length perform_cuts_faces_length]
      perform_cuts_faces_length])

subsection \<open>Every face in one cell\<close>

lemma side_unit_dir: "side (vscale c (unit_dir d)) (unit_dir d) p = coord d p - c"
  by (cases d) (simp_all add: side_def dot_def vscale_def)

lemma cut_xyz_one_sided:
  assumes "idx_ok bm" "i \<in> set rng"
  shows "faces_one_sided (vscale (of_int i) (unit_dir d)) (unit_dir d) (snd (cut_xyz rng bm))"
proof -
  let ?x = "snd (perform_cuts rng (Vec3 1 0 0) bm)"
  let ?y = "snd (perform_cuts rng (Vec3 0 1 0) ?x)"
  have x: "idx_ok ?x" using assms(1) by (rule perform_cuts_idx_ok)
  have y: "idx_ok ?y" using x by (rule perform_cuts_idx_ok)
  show ?thesis
  proof (cases d)
    case AX
    have "faces_one_sided (vscale (of_int i) (Vec3 1 0 0)) (Vec3 1 0 0) ?x"
      using assms by (rule perform_cuts_new_one_sided)
    with x y AX show ?thesis by (simp add: cut_xyz_eq perform_cuts_keeps_one_sided)
  next
    case AY
    have "faces_one_sided (vscale (of_int i) (Vec3 0 1 0)) (Vec3 0 1 0) ?y"
      using x assms(2) by (rule perform_cuts_new_one_sided)
    with y AY show ?thesis by (simp add: cut_xyz_eq perform_cuts_keeps_one_sided)
  next
    case AZ
    with y assms(2) show ?thesis by (simp add: cut_xyz_eq perform_cuts_new_one_sided)
  qed
qed

text \<open>C14: after the three loops of \<open>cut\<close> (lines 22--24) every face lies on one
  closed side of every cut plane: for every axis and every \<open>i\<close> of the range,
  the face's corners all have that coordinate at most \<open>i\<close> or all at least
  \<open>i\<close>.  So each face fits in one cell of the grid the range defines.\<close>

theorem cut_xyz_faces_in_cells:
  assumes "idx_ok bm" "cut_xyz rng bm = (r, bm')" "f \<in> set (faces bm')" "i \<in> set rng"
  shows "(\<forall>v \<in> set f. coord d (verts bm' ! v) \<le> of_int i) \<or>
         (\<forall>v \<in> set f. of_int i \<le> coord d (verts bm' ! v))"
proof -
  have bm': "bm' = snd (cut_xyz rng bm)" using assms(2) by simp
  have "faces_one_sided (vscale (of_int i) (unit_dir d)) (unit_dir d) bm'"
    unfolding bm' using assms(1,4) by (rule cut_xyz_one_sided)
  with assms(3) show ?thesis
    by (simp add: faces_one_sided_def one_sided_cases list_all_iff side_unit_dir)
qed

theorem cut_xyz_faces_in_cells_witness:
  "(\<forall>v \<in> set (hd (faces (snd (cut_xyz [1] ex_sq)))). coord AX (verts (snd (cut_xyz [1] ex_sq)) ! v) \<le> of_int 1) \<or>
   (\<forall>v \<in> set (hd (faces (snd (cut_xyz [1] ex_sq)))). of_int 1 \<le> coord AX (verts (snd (cut_xyz [1] ex_sq)) ! v))"
proof -
  have ok: "idx_ok ex_sq" by (simp add: idx_ok_def)
  have "length (faces ex_sq) \<le> length (faces (snd (cut_xyz [1] ex_sq)))" by (rule cut_xyz_faces_length)
  then have "hd (faces (snd (cut_xyz [1] ex_sq))) \<in> set (faces (snd (cut_xyz [1] ex_sq)))"
    by (cases "faces (snd (cut_xyz [1] ex_sq))") simp_all
  then show ?thesis by (rule cut_xyz_faces_in_cells [OF ok prod.collapse [symmetric]]) simp
qed

subsection \<open>Cutting keeps every mesh well indexed\<close>

lemma mode_set_objects: "objects (snd (mode_set md s)) = objects s"
  by (simp add: mode_set_def split: option.splits)

lemma loose_parts_idx_ok: "p \<in> set (loose_parts m) \<Longrightarrow> idx_ok p"
  by (auto simp: loose_parts_def idx_ok_part_mesh)

end
