(* ===== verification/Pivot.thy ===== *)
theory Pivot
  imports Scene
begin

text \<open>
  The script's pivot fixing, lines 31--54 of
  \<^verbatim>\<open>src/grid cutting tools/grid_cut_blender.py\<close>.
  \<^item> \<open>floor_vec\<close> is the script's \<^verbatim>\<open>floor\<close> (componentwise \<^verbatim>\<open>math.floor\<close>),
    \<open>get_center\<close> the average of the eight bounding-box corners,
    \<open>get_index\<close> the floor of that average.
  \<^item> \<open>fix_pivot_step\<close> is the body of the loop of \<^verbatim>\<open>fix_pivots\<close> (lines 48--52),
    \<open>fix_pivots_loop\<close> the loop, \<open>fix_pivots\<close> the whole function, whose last
    line assigns to \<^verbatim>\<open>bpy.context.selected_objects\<close>; context attributes are
    read-only, so that assignment raises (\<open>context_assign_selected\<close>).
  \<^item> \<open>pivot_fixed\<close> is the abstract specification of one iteration: the object
    keeps its world geometry, its location becomes the cell index and its
    rotation and scale are applied (an Empty, with no vertices, only loses
    them).
  The lemmas show that the average of the corners is the midpoint of the box
  (\<open>get_center_bound_box\<close>), that one iteration refines \<open>pivot_fixed\<close>
  (\<open>fix_pivot_step_eq\<close>) and that the loop applies it to every target.
\<close>

definition floor_vec :: "vec3 \<Rightarrow> vec3" where
  "floor_vec v = Vec3 (of_int \<lfloor>vx v\<rfloor>) (of_int \<lfloor>vy v\<rfloor>) (of_int \<lfloor>vz v\<rfloor>)"

definition get_center :: "vec3 list \<Rightarrow> vec3" where
  "get_center bbox = vscale (1 / 8) (foldl (+) 0 bbox)"

definition get_index :: "obj \<Rightarrow> vec3" where
  "get_index target = floor_vec (get_center (obj_bound_box target))"

definition fix_pivot_step :: "nat \<Rightarrow> scene \<Rightarrow> (scene, unit) outcome" where
  "fix_pivot_step target s =
     (let s1 = select target s;
          index = get_index (objects s1 ! target);
          s2 = set_location target (location (objects s1 ! target) - index) s1
      in py_bind (transform_apply s2) (\<lambda>_ s3. (Inr (), set_location target index s3)))"

fun fix_pivots_loop :: "nat list \<Rightarrow> scene \<Rightarrow> (scene, unit) outcome" where
  "fix_pivots_loop [] s = (Inr (), s)"
| "fix_pivots_loop (t # ts) s = py_bind (fix_pivot_step t s) (\<lambda>_. fix_pivots_loop ts)"

definition context_assign_selected :: "nat list \<Rightarrow> scene \<Rightarrow> (scene, unit) outcome" where
  "context_assign_selected targets s =
     (Inl (AttributeError
        ''bpy_struct: attribute \"selected_objects\" from \"Context\" is read-only''), s)"

definition fix_pivots :: "scene \<Rightarrow> (scene, unit) outcome" where
  "fix_pivots s =
     (let targets = selected_objects s
      in py_bind (fix_pivots_loop targets s) (\<lambda>_. context_assign_selected targets))"

definition pivot_fixed :: "obj \<Rightarrow> obj" where
  "pivot_fixed ob =
     (let index = get_index ob in
      ob\<lparr>data := mesh_map (\<lambda>v. world_of ob v - index) (data ob),
         basis := mat_id, location := index\<rparr>)"

definition read_only_error :: py_error where
  "read_only_error =
     AttributeError ''bpy_struct: attribute \"selected_objects\" from \"Context\" is read-only''"

text \<open>Reference for the cell index: the floor of the midpoint between the least
  and the greatest vertex coordinate on each axis.\<close>

definition extent_cell :: "vec3 list \<Rightarrow> vec3" where
  "extent_cell vs =
     Vec3 (of_int \<lfloor>(Min (vx ` set vs) + Max (vx ` set vs)) / 2\<rfloor>)
          (of_int \<lfloor>(Min (vy ` set vs) + Max (vy ` set vs)) / 2\<rfloor>)
          (of_int \<lfloor>(Min (vz ` set vs) + Max (vz ` set vs)) / 2\<rfloor>)"

text \<open>A scene for the witnesses: a triangle placed at location (1, 0, 0) and an
  Empty at (5, 5, 5), both selected.\<close>

abbreviation ex_tri :: obj where
  "ex_tri \<equiv> \<lparr>otype = MESH, location = Vec3 1 0 0, basis = mat_id,
     data = \<lparr>verts = [Vec3 (1/2) (1/2) 0, Vec3 (3/2) (1/2) 0, Vec3 (1/2) (3/2) 0],
             faces = [[0, 1, 2]]\<rparr>\<rparr>"

abbreviation ex_empty :: obj where
  "ex_empty \<equiv> \<lparr>otype = OTHER, location = Vec3 5 5 5, basis = Mat3 (Vec3 2 0 0) (Vec3 0 2 0) (Vec3 0 0 2),
     data = \<lparr>verts = [], faces = []\<rparr>\<rparr>"

abbreviation ex_pivot_scene :: scene where
  "ex_pivot_scene \<equiv> \<lparr>objects = [ex_tri, ex_empty], active = Some 0, selected = [0, 1],
     mode = OBJECT, editing = []\<rparr>"

text \<open>The same two objects with no transform of their own, the Empty first.\<close>

abbreviation ex_refix_scene :: scene where
  "ex_refix_scene \<equiv> \<lparr>objects = [ex_empty\<lparr>location := 0, basis := mat_id\<rparr>, ex_tri\<lparr>location := 0\<rparr>],
     active = Some 0, selected = [0, 1], mode = OBJECT, editing = []\<rparr>"

subsection \<open>The cell index of a bounding box\<close>

lemma get_center_bound_box:
  "get_center (bound_box m) = vscale (1 / 2) (bbox_lo m + bbox_hi m)"
  by (simp add: get_center_def bound_box_def Let_def vec3_eq_iff algebra_simps)

lemma coord_floor_vec [simp]: "coord d (floor_vec v) = of_int \<lfloor>coord d v\<rfloor>"
  by (cases d) (simp_all add: floor_vec_def)

lemma coord_get_index_mesh:
  "otype ob = MESH \<Longrightarrow> coord d (get_index ob) =
     of_int \<lfloor>(lo_of (coord d) (verts (data ob)) + hi_of (coord d) (verts (data ob))) / 2\<rfloor>"
  by (simp add: get_index_def obj_bound_box_def get_center_bound_box)

lemma get_index_other: "otype ob = OTHER \<Longrightarrow> get_index ob = 0"
  by (simp add: get_index_def obj_bound_box_def get_center_bound_box bbox_lo_def
      bbox_hi_def lo_of_def hi_of_def floor_vec_def zero_vec3_def)

subsection \<open>One iteration\<close>

lemma map_where_single:
  "t < length xs \<Longrightarrow> P t \<Longrightarrow>
   map_where (\<lambda>i. i = t \<and> P i) g xs = xs[t := g (xs ! t)]"
  by (rule nth_equalityI) (auto simp: nth_list_update)

lemma fix_pivot_step_eq:
  assumes "mode s = OBJECT" "t < length (objects s)"
  shows "fix_pivot_step t s =
    (Inr (), (select t s)\<lparr>objects := (objects s)[t := pivot_fixed (objects s ! t)]\<rparr>)"
proof -
  let ?ob = "objects s ! t"
  let ?i = "get_index ?ob"
  let ?s2 = "set_location t (location ?ob - ?i) (select t s)"
  have ob2: "objects ?s2 ! t = ?ob\<lparr>location := location ?ob - ?i\<rparr>"
    using assms(2) by (simp add: nth_objects_set_location)
  with assms have "transform_apply ?s2 = (Inr (), ?s2\<lparr>objects := (objects ?s2)
      [t := apply_obj_transform (?ob\<lparr>location := location ?ob - ?i\<rparr>)]\<rparr>)"
    using map_where_single [of t "objects ?s2" "\<lambda>i. True" apply_obj_transform]
    by (simp add: transform_apply_OBJECT)
  with assms show ?thesis
    by (simp add: fix_pivot_step_def set_location_def pivot_fixed_def Let_def
        apply_obj_transform_def world_of_def [abs_def] mesh_map_def algebra_simps)
qed

subsection \<open>The loop over the targets\<close>

lemma map_where_insert:
  "t < length xs \<Longrightarrow> t \<notin> A \<Longrightarrow>
   map_where (\<lambda>i. i \<in> A) g (xs[t := g (xs ! t)]) = map_where (\<lambda>i. i \<in> insert t A) g xs"
  by (rule nth_equalityI) (auto simp: nth_list_update)

lemma map_where_update:
  "t < length xs \<Longrightarrow> xs[t := g (xs ! t)] = map_where (\<lambda>i. i = t) g xs"
  by (rule nth_equalityI) (auto simp: nth_list_update)

lemma fix_pivots_loop_eq:
  assumes "mode s = OBJECT" "distinct ts" "\<forall>t \<in> set ts. t < length (objects s)"
  shows "fix_pivots_loop ts s =
    (Inr (), if ts = [] then s
             else s\<lparr>objects := map_where (\<lambda>i. i \<in> set ts) pivot_fixed (objects s),
                    active := Some (last ts), selected := [last ts]\<rparr>)"
  using assms
proof (induction ts arbitrary: s)
  case Nil
  then show ?case by simp
next
  case (Cons t ts)
  let ?s1 = "(select t s)\<lparr>objects := (objects s)[t := pivot_fixed (objects s ! t)]\<rparr>"
  from Cons.prems have step: "fix_pivot_step t s = (Inr (), ?s1)"
    by (simp add: fix_pivot_step_eq)
  from Cons.prems have IH: "fix_pivots_loop ts ?s1 =
    (Inr (), if ts = [] then ?s1
             else ?s1\<lparr>objects := map_where (\<lambda>i. i \<in> set ts) pivot_fixed (objects ?s1),
                    active := Some (last ts), selected := [last ts]\<rparr>)"
    by (intro Cons.IH) auto
  from Cons.prems have objs: "map_where (\<lambda>i. i \<in> set ts) pivot_fixed (objects ?s1) =
      map_where (\<lambda>i. i \<in> set (t # ts)) pivot_fixed (objects s)"
    by (simp add: map_where_insert)
  show ?case
  proof (cases "ts = []")
    case True
    with step have "fix_pivots_loop (t # ts) s = (Inr (), ?s1)" by simp
    moreover have "(objects s)[t := pivot_fixed (objects s ! t)] =
        map_where (\<lambda>i. i \<in> set [t]) pivot_fixed (objects s)"
      using Cons.prems by (simp add: map_where_update)
    ultimately show ?thesis using True by (simp add: select_def select_set_def
        set_active_def select_all_deselect_def)
  next
    case False
    with step IH objs show ?thesis by simp
  qed
qed

lemma fix_pivots_eq:
  assumes "mode s = OBJECT"
  shows "fix_pivots s =
    (Inl read_only_error,
     if selected_objects s = [] then s
     else s\<lparr>objects := map_where (\<lambda>i. i \<in> set (selected_objects s)) pivot_fixed (objects s),
            active := Some (last (selected_objects s)),
            selected := [last (selected_objects s)]\<rparr>)"
proof -
  have "\<forall>t \<in> set (selected_objects s). t < length (objects s)"
    by (simp add: set_selected_objects)
  with assms show ?thesis
    by (simp add: fix_pivots_def fix_pivots_loop_eq context_assign_selected_def
        read_only_error_def Let_def)
qed

subsection \<open>What one iteration does to an object\<close>

lemma pivot_fixed_world_verts:
  "otype ob = MESH \<Longrightarrow> world_verts (pivot_fixed ob) = world_verts ob"
  by (simp add: pivot_fixed_def Let_def world_verts_def world_of_def)

lemma pivot_fixed_location: "location (pivot_fixed ob) = get_index ob"
  by (simp add: pivot_fixed_def Let_def)

lemma pivot_fixed_otype [simp]: "otype (pivot_fixed ob) = otype ob"
  by (simp add: pivot_fixed_def Let_def)

lemma pivot_fixed_faces [simp]: "faces (data (pivot_fixed ob)) = faces (data ob)"
  by (simp add: pivot_fixed_def Let_def)

lemma pivot_fixed_local_verts:
  "otype ob = MESH \<Longrightarrow>
   verts (data (pivot_fixed ob)) = map (\<lambda>p. p - get_index ob) (world_verts ob)"
  by (simp add: pivot_fixed_def Let_def world_verts_def)

lemma pivot_fixed_identity_location:
  assumes "otype ob = MESH" "location ob = 0" "basis ob = mat_id"
  shows "coord d (location (pivot_fixed ob)) =
    of_int \<lfloor>(lo_of (coord d) (world_verts (pivot_fixed ob))
              + hi_of (coord d) (world_verts (pivot_fixed ob))) / 2\<rfloor>"
proof -
  have "world_verts ob = verts (data ob)"
    using assms(2,3) by (simp add: world_verts_def world_of_def [abs_def])
  with assms(1) have "world_verts (pivot_fixed ob) = verts (data ob)"
    by (simp add: pivot_fixed_world_verts)
  with assms(1) show ?thesis by (simp add: pivot_fixed_location coord_get_index_mesh)
qed

text \<open>Where the object had no transform of its own, the new local origin is the
  lower corner of the unit cell that holds the centre of its bounding box: the
  centre now lies in the half-open unit cube above the origin.\<close>

lemma floor_mid_shift:
  fixes a b :: scalar
  shows "0 \<le> (a - of_int \<lfloor>(a + b) / 2\<rfloor> + (b - of_int \<lfloor>(a + b) / 2\<rfloor>)) / 2 \<and>
         (a - of_int \<lfloor>(a + b) / 2\<rfloor> + (b - of_int \<lfloor>(a + b) / 2\<rfloor>)) / 2 < 1"
proof -
  let ?f = "of_int \<lfloor>(a + b) / 2\<rfloor> :: scalar"
  have "?f \<le> (a + b) / 2" "(a + b) / 2 < ?f + 1" by linarith+
  then show ?thesis by (simp add: field_simps)
qed

lemma pivot_fixed_center:
  assumes "otype ob = MESH" "location ob = 0" "basis ob = mat_id" "verts (data ob) \<noteq> []"
  shows "0 \<le> coord d (get_center (bound_box (data (pivot_fixed ob)))) \<and>
         coord d (get_center (bound_box (data (pivot_fixed ob)))) < 1"
proof -
  let ?vs = "verts (data ob)"
  let ?i = "coord d (get_index ob)"
  have wv: "world_verts ob = ?vs"
    using assms(2,3) by (simp add: world_verts_def world_of_def [abs_def])
  have "lo_of (coord d) (verts (data (pivot_fixed ob))) = lo_of (coord d) ?vs - ?i"
    "hi_of (coord d) (verts (data (pivot_fixed ob))) = hi_of (coord d) ?vs - ?i"
    using assms(1,4) lo_of_shift [of ?vs "coord d" "- ?i"] hi_of_shift [of ?vs "coord d" "- ?i"]
    by (simp_all add: pivot_fixed_local_verts wv lo_of_map hi_of_map comp_def)
  moreover have "?i = of_int \<lfloor>(lo_of (coord d) ?vs + hi_of (coord d) ?vs) / 2\<rfloor>"
    using assms(1) by (simp add: coord_get_index_mesh)
  ultimately show ?thesis
    using floor_mid_shift [of "lo_of (coord d) ?vs" "hi_of (coord d) ?vs"]
    by (simp add: get_center_bound_box)
qed

subsection \<open>Fixing a pivot a second time\<close>

text \<open>The cell index is read from the local bounding box.  After a pivot fix the
  box lies in the unit cell above the local origin, so a second fix finds index 0
  and bakes the location back into the vertices.\<close>

lemma get_index_pivot_fixed:
  assumes "location ob = 0" "basis ob = mat_id"
  shows "get_index (pivot_fixed ob) = 0"
proof (cases "otype ob = MESH")
  case True
  let ?vs = "verts (data ob)"
  have wv: "world_verts ob = ?vs"
    using assms by (simp add: world_verts_def world_of_def [abs_def])
  have "coord d (get_index (pivot_fixed ob)) = 0" for d
  proof (cases "?vs = []")
    case True
    with \<open>otype ob = MESH\<close> show ?thesis
      by (simp add: coord_get_index_mesh pivot_fixed_local_verts wv lo_of_def hi_of_def)
  next
    case False
    let ?i = "coord d (get_index ob)"
    have "lo_of (coord d) (verts (data (pivot_fixed ob))) = lo_of (coord d) ?vs - ?i"
      "hi_of (coord d) (verts (data (pivot_fixed ob))) = hi_of (coord d) ?vs - ?i"
      using \<open>otype ob = MESH\<close> False lo_of_shift [of ?vs "coord d" "- ?i"]
        hi_of_shift [of ?vs "coord d" "- ?i"]
      by (simp_all add: pivot_fixed_local_verts wv lo_of_map hi_of_map comp_def)
    moreover have "?i = of_int \<lfloor>(lo_of (coord d) ?vs + hi_of (coord d) ?vs) / 2\<rfloor>"
      using \<open>otype ob = MESH\<close> by (simp add: coord_get_index_mesh)
    ultimately show ?thesis
      using \<open>otype ob = MESH\<close> floor_mid_shift [of "lo_of (coord d) ?vs" "hi_of (coord d) ?vs"]
      by (simp add: coord_get_index_mesh floor_eq_iff del: coord_ops)
  qed
  then show ?thesis by (simp add: vec3_eq_coord)
next
  case False
  then have "otype ob = OTHER" by (cases "otype ob") simp_all
  then show ?thesis by (simp add: pivot_fixed_def Let_def get_index_other)
qed

lemma filter_upt_eq_single: "t < n \<Longrightarrow> filter (\<lambda>i. i = t) [0..<n] = [t]"
  by (induction n) (auto simp: filter_empty_conv)

lemma pivot_fixed_twice:
  assumes "location ob = 0" "basis ob = mat_id"
  shows "pivot_fixed (pivot_fixed ob) = ob"
proof (cases "otype ob = MESH")
  case True
  have "get_index (pivot_fixed ob) = 0" using assms by (rule get_index_pivot_fixed)
  with True assms show ?thesis
    by (simp add: pivot_fixed_def Let_def mesh_map_def world_of_def [abs_def] comp_def)
next
  case False
  then have "otype ob = OTHER" by (cases "otype ob") simp_all
  with assms show ?thesis by (simp add: pivot_fixed_def Let_def get_index_other)
qed

subsection \<open>Properties of \<open>fix_pivots\<close>\<close>

text \<open>C1: \<open>fix_pivots\<close> refines its abstract specification: started in object
  mode, it applies \<open>pivot_fixed\<close> to every selected object (mesh or Empty:
  world geometry kept, rotation and scale reset, location at the cell index),
  leaves exactly the last target selected and active, and ends by raising the
  \<^verbatim>\<open>AttributeError\<close> of the read-only context attribute.\<close>

theorem fix_pivots_refines:
  assumes "mode s = OBJECT"
  shows "fix_pivots s =
    (Inl read_only_error,
     if selected_objects s = [] then s
     else s\<lparr>objects := map_where (\<lambda>i. i \<in> set (selected_objects s)) pivot_fixed (objects s),
            active := Some (last (selected_objects s)),
            selected := [last (selected_objects s)]\<rparr>)"
  using assms by (rule fix_pivots_eq)

theorem fix_pivots_refines_witness:
  "fix_pivots ex_pivot_scene =
    (Inl read_only_error,
     ex_pivot_scene\<lparr>objects := [pivot_fixed ex_tri, pivot_fixed ex_empty],
       active := Some 1, selected := [1]\<rparr>)"
  using fix_pivots_refines [of ex_pivot_scene]
  by (simp add: selected_objects_def map_where_def)

text \<open>C2: every selected mesh object keeps its world geometry through
  \<open>fix_pivots\<close>: moving the location by the index, applying the transform and
  moving the location back cancel out on every vertex.\<close>

theorem fix_pivots_world_preserved:
  assumes "mode s = OBJECT" "fix_pivots s = (r, s')"
    and "i \<in> set (selected_objects s)" "otype (objects s ! i) = MESH"
  shows "world_verts (objects s' ! i) = world_verts (objects s ! i)"
proof -
  have "i < length (objects s)" using assms(3) by (simp add: set_selected_objects)
  with assms show ?thesis by (auto simp: fix_pivots_eq pivot_fixed_world_verts split: if_splits)
qed

theorem fix_pivots_world_preserved_witness:
  "world_verts (objects (snd (fix_pivots ex_pivot_scene)) ! 0) = world_verts ex_tri"
  using fix_pivots_world_preserved [of ex_pivot_scene "fst (fix_pivots ex_pivot_scene)"
      "snd (fix_pivots ex_pivot_scene)" 0]
  by (simp add: selected_objects_def)

text \<open>C3: after \<open>fix_pivots\<close> every selected object's location is its cell
  index, the floor of the centre of its original local bounding box.\<close>

theorem fix_pivots_location_index:
  assumes "mode s = OBJECT" "fix_pivots s = (r, s')" "i \<in> set (selected_objects s)"
  shows "location (objects s' ! i) = floor_vec (get_center (obj_bound_box (objects s ! i)))"
proof -
  have "i < length (objects s)" using assms(3) by (simp add: set_selected_objects)
  with assms show ?thesis
    by (auto simp: fix_pivots_eq pivot_fixed_location get_index_def split: if_splits)
qed

theorem fix_pivots_location_index_witness:
  "location (objects (snd (fix_pivots ex_pivot_scene)) ! 0) = Vec3 1 1 0"
proof -
  have "location (objects (snd (fix_pivots ex_pivot_scene)) ! 0) =
        floor_vec (get_center (obj_bound_box ex_tri))"
    using fix_pivots_location_index [of ex_pivot_scene "fst (fix_pivots ex_pivot_scene)"
        "snd (fix_pivots ex_pivot_scene)" 0]
    by (simp add: selected_objects_def)
  then show ?thesis
    by (simp add: obj_bound_box_def get_center_bound_box bbox_lo_def bbox_hi_def lo_of_def
        hi_of_def floor_vec_def)
qed

text \<open>C4: a selected object without geometry (an Empty) is moved to the world
  origin by \<open>fix_pivots\<close>, with its rotation and scale reset: its bounding box
  is centred on its own origin, so its index is 0, \<^verbatim>\<open>transform_apply\<close> on
  line 51 resets its transform and the final assignment
  \<^verbatim>\<open>target.location = index\<close> discards its position.\<close>

theorem fix_pivots_moves_empty_to_origin:
  assumes "mode s = OBJECT" "fix_pivots s = (r, s')"
    and "i \<in> set (selected_objects s)" "otype (objects s ! i) = OTHER"
  shows "location (objects s' ! i) = 0 \<and> basis (objects s' ! i) = mat_id"
proof -
  have "i < length (objects s)" using assms(3) by (simp add: set_selected_objects)
  with assms show ?thesis
    by (auto simp: fix_pivots_eq pivot_fixed_location get_index_other split: if_splits)
       (simp add: pivot_fixed_def Let_def)
qed

theorem fix_pivots_moves_empty_to_origin_witness:
  "location (objects (snd (fix_pivots ex_pivot_scene)) ! 1) = 0 \<and>
   basis (objects (snd (fix_pivots ex_pivot_scene)) ! 1) = mat_id"
  using fix_pivots_moves_empty_to_origin [of ex_pivot_scene "fst (fix_pivots ex_pivot_scene)"
      "snd (fix_pivots ex_pivot_scene)" 1]
  by (simp add: selected_objects_def)

text \<open>C5: a selected mesh without a transform of its own comes out of
  \<open>fix_pivots\<close> with the centre of its local bounding box in the half-open unit
  cube \<open>[0, 1)\<^sup>3\<close>: the pivot is the lower corner of the grid cell holding the
  centre, not the centre itself.\<close>

theorem fix_pivots_center_in_unit_cell:
  assumes "mode s = OBJECT" "fix_pivots s = (r, s')" "i \<in> set (selected_objects s)"
    and "otype (objects s ! i) = MESH" "location (objects s ! i) = 0"
    and "basis (objects s ! i) = mat_id" "verts (data (objects s ! i)) \<noteq> []"
  shows "0 \<le> coord d (get_center (bound_box (data (objects s' ! i)))) \<and>
         coord d (get_center (bound_box (data (objects s' ! i)))) < 1"
proof -
  have "i < length (objects s)" using assms(3) by (simp add: set_selected_objects)
  with assms show ?thesis
    by (auto simp: fix_pivots_eq pivot_fixed_center split: if_splits)
qed

theorem fix_pivots_center_in_unit_cell_witness:
  "0 \<le> coord AX (get_center (bound_box (data (objects (snd (fix_pivots
          (ex_pivot_scene\<lparr>objects := [ex_tri\<lparr>location := 0\<rparr>]\<rparr>))) ! 0)))) \<and>
   coord AX (get_center (bound_box (data (objects (snd (fix_pivots
          (ex_pivot_scene\<lparr>objects := [ex_tri\<lparr>location := 0\<rparr>]\<rparr>))) ! 0)))) < 1"
  using fix_pivots_center_in_unit_cell
      [of "ex_pivot_scene\<lparr>objects := [ex_tri\<lparr>location := 0\<rparr>]\<rparr>"
          "fst (fix_pivots (ex_pivot_scene\<lparr>objects := [ex_tri\<lparr>location := 0\<rparr>]\<rparr>))"
          "snd (fix_pivots (ex_pivot_scene\<lparr>objects := [ex_tri\<lparr>location := 0\<rparr>]\<rparr>))" 0 AX]
  by (simp add: selected_objects_def zero_vec3_def)

text \<open>C15: the script's cell index, summing the eight bounding-box corners,
  scaling by 0.125 and flooring (lines 31--42), equals the reference
  \<open>extent_cell\<close>: the floor of the midpoint of the mesh's extent on each axis.\<close>

theorem get_index_extent_cell:
  "otype ob = MESH \<Longrightarrow> verts (data ob) \<noteq> [] \<Longrightarrow> get_index ob = extent_cell (verts (data ob))"
  using coord_get_index_mesh [of ob AX] coord_get_index_mesh [of ob AY] coord_get_index_mesh [of ob AZ]
  by (simp add: vec3_eq_iff extent_cell_def lo_of_Min hi_of_Max)

theorem get_index_extent_cell_witness:
  "get_index ex_tri = extent_cell (verts (data ex_tri))"
  by (rule get_index_extent_cell) simp_all

text \<open>C18: running \<open>fix_pivots\<close> again on its own result undoes it for the one
  object the first run leaves selected: where the selected objects had no
  transform of their own (as after the \<^verbatim>\<open>transform_apply\<close> of
  \<open>grid_cut\<close>), the last target gets back its original location and vertices,
  and every other object keeps its fixed pivot.\<close>

theorem fix_pivots_twice_restores:
  assumes "mode s = OBJECT" "selected_objects s \<noteq> []"
    and "\<forall>i \<in> set (selected_objects s). location (objects s ! i) = 0 \<and> basis (objects s ! i) = mat_id"
  shows "objects (snd (fix_pivots (snd (fix_pivots s)))) =
         (objects (snd (fix_pivots s)))[last (selected_objects s) := objects s ! last (selected_objects s)]"
proof -
  let ?t = "last (selected_objects s)"
  let ?s1 = "snd (fix_pivots s)"
  have t: "?t \<in> set (selected_objects s)" using assms(2) by simp
  then have tl: "?t < length (objects s)" by (simp add: set_selected_objects)
  have s1: "?s1 = s\<lparr>objects := map_where (\<lambda>i. i \<in> set (selected_objects s)) pivot_fixed (objects s),
                     active := Some ?t, selected := [?t]\<rparr>"
    using assms(1,2) by (simp add: fix_pivots_eq)
  have sel1: "selected_objects ?s1 = [?t]"
    using tl by (simp add: selected_objects_def s1 filter_upt_eq_single)
  have "objects (snd (fix_pivots ?s1)) = map_where (\<lambda>i. i = ?t) pivot_fixed (objects ?s1)"
    using sel1 by (simp add: fix_pivots_eq s1 assms(1))
  also have "\<dots> = (objects ?s1)[?t := pivot_fixed (objects ?s1 ! ?t)]"
    using tl by (intro map_where_update [symmetric]) (simp add: s1)
  also have "pivot_fixed (objects ?s1 ! ?t) = objects s ! ?t"
    using tl t assms(3) by (simp add: s1 pivot_fixed_twice)
  finally show ?thesis .
qed

theorem fix_pivots_twice_restores_witness:
  "objects (snd (fix_pivots (snd (fix_pivots ex_refix_scene)))) ! 1 = ex_tri\<lparr>location := 0\<rparr>"
proof -
  have sel: "selected_objects ex_refix_scene = [0, 1]" by (simp add: selected_objects_def)
  have "objects (snd (fix_pivots (snd (fix_pivots ex_refix_scene)))) =
        (objects (snd (fix_pivots ex_refix_scene)))[1 := ex_tri\<lparr>location := 0\<rparr>]"
    using fix_pivots_twice_restores [of ex_refix_scene] unfolding sel by simp
  moreover have "length (objects (snd (fix_pivots ex_refix_scene))) = 2"
    by (simp add: fix_pivots_eq sel)
  ultimately show ?thesis by simp
qed

text \<open>C21: the cell index of a mesh object lies between the floors of the least
  and the greatest coordinate of its vertices on every axis: it names a cell
  that the object's bounding box meets.\<close>

theorem get_index_within_extent:
  assumes "otype ob = MESH"
  shows "of_int \<lfloor>lo_of (coord d) (verts (data ob))\<rfloor> \<le> coord d (get_index ob) \<and>
         coord d (get_index ob) \<le> of_int \<lfloor>hi_of (coord d) (verts (data ob))\<rfloor>"
proof -
  let ?lo = "lo_of (coord d) (verts (data ob))"
  let ?hi = "hi_of (coord d) (verts (data ob))"
  have "?lo \<le> (?lo + ?hi) / 2" "(?lo + ?hi) / 2 \<le> ?hi" using lo_of_le_hi_of [of "coord d" "verts (data ob)"]
    by simp_all
  then have "\<lfloor>?lo\<rfloor> \<le> \<lfloor>(?lo + ?hi) / 2\<rfloor>" "\<lfloor>(?lo + ?hi) / 2\<rfloor> \<le> \<lfloor>?hi\<rfloor>" by (simp_all add: floor_mono)
  with assms show ?thesis by (simp add: coord_get_index_mesh)
qed

theorem get_index_within_extent_witness:
  "of_int \<lfloor>lo_of (coord AX) (verts (data ex_tri))\<rfloor> \<le> coord AX (get_index ex_tri) \<and>
   coord AX (get_index ex_tri) \<le> of_int \<lfloor>hi_of (coord AX) (verts (data ex_tri))\<rfloor>"
  by (rule get_index_within_extent) simp

end
