(* ===== verification/Pipeline.thy ===== *)
theory Pipeline
  imports Cells Pivot
begin

text \<open>
  How the cell property of the cutting loops (\<open>Cells\<close>) survives the rest of
  the pipeline when the active mesh is the only selected object: the loose
  parts of the cut mesh keep their faces, the new objects share the identity
  transform the mesh got from \<^verbatim>\<open>transform_apply\<close>, and \<open>pivot_fixed\<close> moves
  no world corner.  \<open>obj_in_cells rng ob\<close> says that every face of \<open>ob\<close>, read
  in world coordinates, lies on one closed side of every plane \<open>x = i\<close>,
  \<open>y = i\<close>, \<open>z = i\<close> with \<open>i\<close> in \<open>rng\<close>.
\<close>

definition obj_in_cells :: "int list \<Rightarrow> obj \<Rightarrow> bool" where
  "obj_in_cells rng ob \<longleftrightarrow>
     list_all (\<lambda>d. list_all (\<lambda>i. list_all (\<lambda>f.
        one_sided (vscale (of_int i) (unit_dir d)) (unit_dir d)
          (map (\<lambda>v. world_of ob (verts (data ob) ! v)) f)) (faces (data ob))) rng) [AX, AY, AZ]"

text \<open>For the witnesses: a triangle across the plane x = 1, and a scene where it is
  selected beside the active triangle of \<open>Pivot\<close>.\<close>

abbreviation ex_cross :: bmesh where
  "ex_cross \<equiv> \<lparr>verts = [Vec3 (1/2) 0 0, Vec3 (3/2) 0 0, Vec3 (1/2) 1 0], faces = [[0, 1, 2]]\<rparr>"

abbreviation ex_two_sel_scene :: scene where
  "ex_two_sel_scene \<equiv> \<lparr>objects = [ex_tri, \<lparr>otype = MESH, location = 0, basis = mat_id, data = ex_cross\<rparr>],
     active = Some 0, selected = [0, 1], mode = OBJECT, editing = []\<rparr>"

subsection \<open>Objects in cells\<close>

lemma list_all_axes: "list_all P [AX, AY, AZ] \<longleftrightarrow> (\<forall>d. P d)"
  by (auto intro: axis.induct)

lemma obj_in_cells_identity:
  assumes "location ob = 0" "basis ob = mat_id"
  shows "obj_in_cells rng ob \<longleftrightarrow>
           (\<forall>d. \<forall>i \<in> set rng. faces_one_sided (vscale (of_int i) (unit_dir d)) (unit_dir d) (data ob))"
  unfolding obj_in_cells_def list_all_axes using assms by (simp add: faces_one_sided_def list_all_iff)

lemma obj_in_cellsD:
  assumes "obj_in_cells rng ob" "i \<in> set rng" "f \<in> set (faces (data ob))"
  shows "(\<forall>v \<in> set f. coord d (world_of ob (verts (data ob) ! v)) \<le> of_int i) \<or>
         (\<forall>v \<in> set f. of_int i \<le> coord d (world_of ob (verts (data ob) ! v)))"
  using assms(1) [unfolded obj_in_cells_def list_all_axes, THEN spec, of d] assms(2,3)
  by (simp add: one_sided_def list_all_iff side_unit_dir)

lemma faces_one_sided_face_coords:
  "faces_one_sided co no m \<longleftrightarrow> list_all (one_sided co no) (face_coords m)"
  by (simp add: faces_one_sided_def face_coords_def list_all_iff)

lemma loose_parts_one_sided:
  assumes "faces_one_sided co no m" "q \<in> set (loose_parts m)"
  shows "faces_one_sided co no q"
proof -
  from assms(2) obtain c where c: "c \<in> set (loose_groups m)" "q = part_mesh m c"
    by (auto simp: loose_parts_def)
  have "one_sided co no (map (\<lambda>v. verts m ! v) (faces m ! i))" if "i \<in> set c" for i
    using assms(1) loose_groups_bounded [OF c(1) that]
    by (simp add: faces_one_sided_def list_all_length)
  with c(2) show ?thesis by (simp add: faces_one_sided_face_coords face_coords_part_mesh list_all_iff)
qed

lemma world_corner_eq:
  assumes "world_verts ob' = world_verts ob" "v < length (verts (data ob))"
  shows "world_of ob' (verts (data ob') ! v) = world_of ob (verts (data ob) ! v)"
proof -
  have "length (verts (data ob')) = length (verts (data ob))"
    using arg_cong [OF assms(1), of length] by (simp add: world_verts_def)
  with assms show ?thesis using nth_map [of v "verts (data ob)" "world_of ob"]
      nth_map [of v "verts (data ob')" "world_of ob'"] by (simp add: world_verts_def)
qed

lemma pivot_fixed_in_cells:
  assumes "otype ob = MESH" "idx_ok (data ob)"
  shows "obj_in_cells rng (pivot_fixed ob) = obj_in_cells rng ob"
proof -
  have "map (\<lambda>v. world_of (pivot_fixed ob) (verts (data (pivot_fixed ob)) ! v)) f =
        map (\<lambda>v. world_of ob (verts (data ob) ! v)) f" if "f \<in> set (faces (data ob))" for f
    using world_corner_eq [OF pivot_fixed_world_verts [OF assms(1)]] idx_okD [OF assms(2) that] by simp
  then show ?thesis by (simp add: obj_in_cells_def list_all_iff cong: map_cong)
qed

subsection \<open>\<open>cut\<close> on a single selected mesh\<close>

lemma cut_single_eq:
  assumes "active s = Some a" "a < length (objects s)" "otype (objects s ! a) = MESH"
    and "set (selected_objects s) \<subseteq> {a}"
  shows "cut rng s = (Inr (), (separate_obj a (s\<lparr>mode := EDIT, editing := [a],
           objects := (objects s)[a := (objects s ! a)\<lparr>data := snd (cut_xyz rng (data (objects s ! a)))\<rparr>]\<rparr>))
           \<lparr>mode := OBJECT, editing := []\<rparr>)"
proof -
  let ?s1 = "s\<lparr>mode := EDIT, editing := [a]\<rparr>"
  let ?s2 = "?s1\<lparr>objects := (objects s)[a := (objects s ! a)\<lparr>data := snd (cut_xyz rng (data (objects s ! a)))\<rparr>]\<rparr>"
  have "filter (\<lambda>i. i \<noteq> a \<and> otype (objects s ! i) = MESH) (selected_objects s) = []"
    using assms(4) by (auto simp: filter_empty_conv)
  then have m1: "mode_set EDIT s = (Inr (), ?s1)" using assms(1-3) by (simp add: mode_set_def)
  have w: "with_mesh a (cut_xyz rng) ?s1 = (Inr (), ?s2)"
    by (simp add: with_mesh_def cut_xyz_eq)
  have "cut_separate ?s2 = (Inr (), (separate_obj a ?s2)\<lparr>mode := OBJECT, editing := []\<rparr>)"
    using assms(1,2) by (intro cut_separate_single) simp_all
  with m1 w assms(1) show ?thesis by (simp add: cut_def)
qed

lemma separate_obj_nth:
  assumes "a < length (objects s)" "j = a \<or> length (objects s) \<le> j" "j < length (objects (separate_obj a s))"
  shows "\<exists>q \<in> insert (data (objects s ! a)) (set (loose_parts (data (objects s ! a)))).
           objects (separate_obj a s) ! j = (objects s ! a)\<lparr>data := q\<rparr>"
proof (cases "loose_parts (data (objects s ! a))")
  case Nil
  with assms show ?thesis by (auto simp: separate_obj_def)
next
  case (Cons p ps)
  show ?thesis
  proof (cases "j = a")
    case True
    with assms(1) Cons show ?thesis by (auto simp: separate_obj_def Let_def nth_append)
  next
    case False
    with assms Cons have "j - length (objects s) < length ps" "length (objects s) \<le> j"
      by (auto simp: separate_obj_def Let_def)
    with Cons show ?thesis by (auto simp: separate_obj_def Let_def nth_append)
  qed
qed

lemma cut_single_pieces:
  assumes "active s = Some a" "a < length (objects s)" "otype (objects s ! a) = MESH"
    and "set (selected_objects s) \<subseteq> {a}" "location (objects s ! a) = 0" "basis (objects s ! a) = mat_id"
    and "idx_ok (data (objects s ! a))" "cut rng s = (r, s2)"
    and "j = a \<or> length (objects s) \<le> j" "j < length (objects s2)"
  shows "obj_in_cells rng (objects s2 ! j) \<and> otype (objects s2 ! j) = MESH \<and> idx_ok (data (objects s2 ! j))"
proof -
  let ?M = "snd (cut_xyz rng (data (objects s ! a)))"
  let ?t = "s\<lparr>mode := EDIT, editing := [a], objects := (objects s)[a := (objects s ! a)\<lparr>data := ?M\<rparr>]\<rparr>"
  have s2: "objects s2 = objects (separate_obj a ?t)"
    using cut_single_eq [OF assms(1-4), of rng] assms(8) by simp
  have at: "a < length (objects ?t)" "objects ?t ! a = (objects s ! a)\<lparr>data := ?M\<rparr>"
    using assms(2) by simp_all
  have "j = a \<or> length (objects ?t) \<le> j" "j < length (objects (separate_obj a ?t))"
    using assms(9,10) s2 by simp_all
  from separate_obj_nth [OF at(1) this] at(2) s2 obtain q where
    q: "q \<in> insert ?M (set (loose_parts ?M))" "objects s2 ! j = (objects s ! a)\<lparr>data := q\<rparr>"
    by auto
  have okM: "idx_ok ?M" using assms(7) by (rule cut_xyz_idx_ok)
  have cM: "\<forall>d. \<forall>i \<in> set rng. faces_one_sided (vscale (of_int i) (unit_dir d)) (unit_dir d) ?M"
    using assms(7) cut_xyz_one_sided by blast
  have "idx_ok q" using q(1) okM loose_parts_idx_ok by blast
  moreover have "\<forall>d. \<forall>i \<in> set rng. faces_one_sided (vscale (of_int i) (unit_dir d)) (unit_dir d) q"
    using q(1) cM loose_parts_one_sided by blast
  ultimately show ?thesis using q(2) assms(3,5,6) by (simp add: obj_in_cells_identity)
qed

lemma cut_single_keeps_face:
  assumes "active s = Some a" "a < length (objects s)" "otype (objects s ! a) = MESH"
    and "set (selected_objects s) \<subseteq> {a}" "faces (data (objects s ! a)) \<noteq> []" "cut rng s = (r, s2)"
  shows "faces (data (objects s2 ! a)) \<noteq> []"
proof -
  let ?M = "snd (cut_xyz rng (data (objects s ! a)))"
  let ?t = "s\<lparr>mode := EDIT, editing := [a], objects := (objects s)[a := (objects s ! a)\<lparr>data := ?M\<rparr>]\<rparr>"
  have s2: "objects s2 = objects (separate_obj a ?t)"
    using cut_single_eq [OF assms(1-4), of rng] assms(6) by simp
  have "faces ?M \<noteq> []" using assms(5) cut_xyz_faces_length [of "data (objects s ! a)" rng] by auto
  then obtain c cs where cs: "loose_groups ?M = c # cs" using loose_groups_nonempty by (cases "loose_groups ?M") auto
  then have "c \<noteq> []" using loose_groups_member_nonempty by (metis list.set_intros(1))
  then have "faces (part_mesh ?M c) \<noteq> []" using faces_part_mesh_length [of ?M c] by (metis length_0_conv)
  with cs s2 assms(2) show ?thesis by (simp add: separate_obj_def loose_parts_def Let_def nth_append)
qed

lemma selected_objects_single:
  "selected_objects s = [a] \<Longrightarrow> a < length (objects s) \<and> a \<in> set (selected s)"
proof -
  assume "selected_objects s = [a]"
  then have "a \<in> set (selected_objects s)" by simp
  then show ?thesis by (simp add: set_selected_objects)
qed

lemma transform_apply_single:
  assumes "mode s = OBJECT" "selected_objects s = [a]" "otype (objects s ! a) = MESH"
  shows "\<exists>s1. transform_apply s = (Inr (), s1) \<and> objects s1 ! a = apply_obj_transform (objects s ! a)
           \<and> length (objects s1) = length (objects s) \<and> active s1 = active s
           \<and> selected_objects s1 = selected_objects s"
proof -
  from selected_objects_single [OF assms(2)] assms show ?thesis by (simp add: transform_apply_OBJECT selected_objects_def)
qed

subsection \<open>The other selected meshes\<close>

text \<open>\<^verbatim>\<open>mode_set(mode='EDIT')\<close> takes every selected mesh into edit mode, and
  \<^verbatim>\<open>separate(type='LOOSE')\<close> splits each of them, but \<open>cut\<close> bisects only
  \<^verbatim>\<open>bpy.context.object.data\<close>.\<close>

lemma separate_obj_other:
  "j < length (objects s) \<Longrightarrow> j \<noteq> i \<Longrightarrow> objects (separate_obj i s) ! j = objects s ! j"
  by (simp add: separate_obj_def Let_def nth_append split: list.splits)

lemma separate_obj_self:
  "i < length (objects s) \<Longrightarrow> loose_parts (data (objects s ! i)) \<noteq> [] \<Longrightarrow>
   data (objects (separate_obj i s) ! i) = hd (loose_parts (data (objects s ! i)))"
  by (auto simp: separate_obj_def Let_def nth_append neq_Nil_conv)

lemma fold_separate_obj_other:
  "j < length (objects s) \<Longrightarrow> j \<notin> set is \<Longrightarrow> objects (fold separate_obj is s) ! j = objects s ! j"
proof (induction "is" arbitrary: s)
  case (Cons i "is")
  have "j < length (objects (separate_obj i s))" using Cons.prems(1) length_separate_obj [of s i] by simp
  with Cons show ?case by (simp add: separate_obj_other)
qed simp

lemma fold_separate_obj_once:
  assumes "b < length (objects s)" "b \<notin> set xs" "b \<notin> set ys"
    and "loose_parts (data (objects s ! b)) \<noteq> []"
  shows "data (objects (fold separate_obj (xs @ b # ys) s) ! b) = hd (loose_parts (data (objects s ! b)))"
proof -
  let ?s1 = "fold separate_obj xs s"
  have b1: "b < length (objects ?s1)" using assms(1) length_fold_separate_obj [of s xs] by simp
  have o1: "objects ?s1 ! b = objects s ! b" using assms(1,2) by (rule fold_separate_obj_other)
  have b2: "b < length (objects (separate_obj b ?s1))" using b1 length_separate_obj [of ?s1 b] by simp
  have "objects (fold separate_obj ys (separate_obj b ?s1)) ! b = objects (separate_obj b ?s1) ! b"
    using b2 assms(3) by (rule fold_separate_obj_other)
  moreover have "data (objects (separate_obj b ?s1) ! b) = hd (loose_parts (data (objects s ! b)))"
    using separate_obj_self [OF b1] o1 assms(4) by simp
  ultimately show ?thesis by simp
qed

text \<open>C19: a selected mesh other than the active object is not cut: \<open>cut\<close>
  returns normally and leaves that object holding the first loose part of its
  mesh as it was before the cuts, whatever planes the range gives.\<close>

theorem cut_other_selected_uncut:
  assumes "active s = Some a" "a < length (objects s)" "otype (objects s ! a) = MESH"
    and "b \<in> set (selected_objects s)" "b \<noteq> a" "otype (objects s ! b) = MESH"
    and "faces (data (objects s ! b)) \<noteq> []" "cut rng s = (r, s')"
  shows "r = Inr () \<and> data (objects s' ! b) = hd (loose_parts (data (objects s ! b)))"
proof -
  let ?ed = "a # filter (\<lambda>i. i \<noteq> a \<and> otype (objects s ! i) = MESH) (selected_objects s)"
  let ?s1 = "s\<lparr>mode := EDIT, editing := ?ed\<rparr>"
  let ?s2 = "?s1\<lparr>objects := (objects s)[a := (objects s ! a)\<lparr>data := snd (cut_xyz rng (data (objects s ! a)))\<rparr>]\<rparr>"
  have bl: "b < length (objects s)" using assms(4) by (simp add: set_selected_objects)
  have m1: "mode_set EDIT s = (Inr (), ?s1)" using assms(1-3) by (simp add: mode_set_def)
  have w: "with_mesh a (cut_xyz rng) ?s1 = (Inr (), ?s2)"
    by (simp add: with_mesh_def cut_xyz_eq)
  have "b \<in> set ?ed" using assms(4-6) by simp
  moreover have "distinct ?ed" by simp
  ultimately obtain xs ys where ed: "?ed = xs @ b # ys" "b \<notin> set xs" "b \<notin> set ys"
  proof -
    assume r: "\<And>xs ys. ?ed = xs @ b # ys \<Longrightarrow> b \<notin> set xs \<Longrightarrow> b \<notin> set ys \<Longrightarrow> thesis"
    obtain xs ys where e: "?ed = xs @ b # ys" using split_list [OF \<open>b \<in> set ?ed\<close>] by blast
    with \<open>distinct ?ed\<close> have "distinct (xs @ b # ys)" by simp
    then have "b \<notin> set xs" "b \<notin> set ys" by auto
    with e r show thesis by blast
  qed
  have o2: "objects ?s2 ! b = objects s ! b" using assms(5) by simp
  have lp: "loose_parts (data (objects s ! b)) \<noteq> []"
    using loose_groups_nonempty [OF assms(7)] by (simp add: loose_parts_def)
  have "data (objects (fold separate_obj (editing ?s2) ?s2) ! b) = hd (loose_parts (data (objects s ! b)))"
    using fold_separate_obj_once [of b ?s2 xs ys] bl ed o2 lp by simp
  moreover have "cut rng s = cut_separate ?s2" using m1 w assms(1) by (simp add: cut_def)
  moreover have "cut_separate ?s2 = mode_set OBJECT (fold separate_obj (editing ?s2) ?s2)"
    by (simp add: cut_separate_def mesh_separate_loose_def)
  moreover have "fst (mode_set OBJECT (fold separate_obj (editing ?s2) ?s2)) = Inr ()"
  proof -
    have "length (objects ?s2) \<le> length (objects (fold separate_obj (editing ?s2) ?s2))"
      by (rule length_fold_separate_obj)
    then have "a < length (objects (fold separate_obj (editing ?s2) ?s2))" using assms(2) by simp
    with assms(1) show ?thesis by (simp add: mode_set_def del: fold_simps)
  qed
  ultimately show ?thesis using assms(8) mode_set_objects [of OBJECT "fold separate_obj (editing ?s2) ?s2"]
    by (metis fst_conv snd_conv)
qed

theorem cut_other_selected_uncut_witness:
  "fst (cut [1] ex_two_sel_scene) = Inr () \<and> data (objects (snd (cut [1] ex_two_sel_scene)) ! 1) = ex_cross"
proof -
  have lp: "loose_parts ex_cross = [ex_cross]" by code_simp
  have "fst (cut [1] ex_two_sel_scene) = Inr () \<and>
        data (objects (snd (cut [1] ex_two_sel_scene)) ! 1) = hd (loose_parts ex_cross)"
    using cut_other_selected_uncut [of ex_two_sel_scene 0 1 "[1]" "fst (cut [1] ex_two_sel_scene)"
        "snd (cut [1] ex_two_sel_scene)"]
    by (simp add: selected_objects_def)
  then show ?thesis unfolding lp by simp
qed

end
