(* ===== verification/Spec2Isabelle.thy ===== *)
theory Spec2Isabelle
  imports Py_Range Pipeline
begin

text \<open>
  \<^bold>\<open>Verification development of \<^verbatim>\<open>src/grid cutting tools/grid_cut_blender.py\<close>.\<close>

  \<^bold>\<open>The program.\<close>  A Blender script of five functions and one call.
  \<^verbatim>\<open>grid_cut\<close> (lines 56--59) applies the transforms of the selected objects,
  calls \<^verbatim>\<open>cut\<close> and then \<^verbatim>\<open>fix_pivots\<close>; line 61 runs it on
  \<^verbatim>\<open>range(0,10,1)\<close>.  \<^verbatim>\<open>cut\<close> (16--29) enters edit mode, takes the active
  object's mesh, runs \<^verbatim>\<open>perform_cuts\<close> (11--14: bisect at \<open>i \<cdot> dir\<close>, then rip
  the cut edges) along x, y and z, writes the mesh back, separates the loose
  parts into objects and returns to object mode.  \<^verbatim>\<open>fix_pivots\<close> (44--54)
  visits every selected object: \<^verbatim>\<open>select\<close> (6--9) it, compute its cell index
  \<^verbatim>\<open>get_index\<close> (41--42: \<^verbatim>\<open>floor\<close> of \<^verbatim>\<open>get_center\<close> of the bounding box,
  31--39), move the object by minus the index, apply the transform, set the
  location to the index; it ends by assigning \<^verbatim>\<open>bpy.context.selected_objects\<close>.

  \<^bold>\<open>Theories.\<close>
  \<^item> \<open>Prelude\<close>: rational coordinates (\<open>scalar = rat\<close>; Blender's floats are
    read as exact values), the vector type \<open>vec3\<close> as an additive group,
    axes, Python's exceptions \<open>py_error\<close> and the outcome type
    \<open>(py_error + 'a) \<times> 's\<close> with \<open>py_bind\<close>: an exception skips the rest of the
    code and keeps the state reached, as Python does without rollback.
  \<^item> \<open>Py_Range\<close>: \<^verbatim>\<open>range\<close> (\<open>py_range\<close>, \<open>range_vals\<close>, a \<^theory_text>\<open>function\<close> with
    a measure), the \<^verbatim>\<open>ValueError\<close> on step 0.
  \<^item> \<open>Mesh\<close>: a mesh as vertex positions and faces (vertex index lists),
    bounding box corners in Blender's order.  \<open>Closure\<close>: reachability
    closure \<open>grow\<close> and its \<open>components\<close>, terminating by the measure of the
    indices not yet reached.
  \<^item> \<open>Bisect\<close>: the host operators \<^verbatim>\<open>bmesh.ops.bisect_plane\<close> and
    \<^verbatim>\<open>bmesh.ops.split_edges\<close> (\<open>bisect_plane\<close>, \<open>rip_edges\<close>,
    \<open>split_edges\<close>, the \<^verbatim>\<open>TypeError\<close> on non-edges included).  \<open>Loose\<close>:
    the mesh side of \<^verbatim>\<open>bpy.ops.mesh.separate(type='LOOSE')\<close>: the loose
    groups of faces (each in the mesh's face order, as Blender copies a part)
    and the part meshes.
  \<^item> \<open>Scene\<close>: the scene record (objects, active, selection, mode, the objects
    in edit mode), the \<^verbatim>\<open>bpy\<close> operators the script calls with their poll
    failures as \<^verbatim>\<open>RuntimeError\<close>, and the script's \<open>select\<close>.
    \<open>transform_apply\<close> resets the transform of every selected object, a mesh
    (whose vertices take the transform) or an Empty.
  \<^item> \<open>Pivot\<close>: \<open>floor_vec\<close>, \<open>get_center\<close>, \<open>get_index\<close>, \<open>fix_pivot_step\<close>
    (lines 48--52), \<open>fix_pivots_loop\<close>, \<open>fix_pivots\<close>, and the abstract
    \<open>pivot_fixed\<close> of what one visit does to one object.
  \<^item> \<open>Cut\<close>: \<open>cut_edge_filter\<close> (the comprehension of line 14),
    \<open>perform_cut_step\<close>, \<open>perform_cuts\<close>, \<open>with_mesh\<close> (lines 18 and 26),
    \<open>cut_xyz\<close> (22--24), \<open>cut_separate\<close> (28--29), \<open>cut\<close>.
  \<^item> \<open>Cells\<close>: the geometric invariant of the cutting loops
    (\<open>faces_one_sided\<close>): a cut keeps every earlier plane, since the corners
    it adds lie between two corners of the face they cut.
  \<^item> \<open>Pipeline\<close>: \<open>obj_in_cells\<close> (every face of an object, in world
    coordinates, on one side of every cut plane) and the stages of the
    pipeline on a single selected mesh: \<open>cut\<close> as one equation, the pieces
    it makes, \<open>pivot_fixed\<close> moving no world corner; and what \<open>cut\<close> does
    to the other selected meshes.
  \<^item> this theory: \<open>grid_cut\<close>, \<open>main_range\<close>, \<open>main\<close> and the properties of
    the whole pipeline.

  \<^bold>\<open>What is shown.\<close>
  \<^item> Pivot fixing refines its specification (\<open>fix_pivots_refines\<close>): every
    selected object gets \<open>pivot_fixed\<close>, the last one stays selected and the
    run ends in the \<^verbatim>\<open>AttributeError\<close> of line 54; meshes keep their world
    geometry; the location becomes the cell index; an Empty goes to the origin
    with its rotation and scale reset.
  \<^item> Cutting never raises (\<open>cut_xyz_never_raises\<close>), each step leaves every
    face on one side of its plane, all three loops leave every face on one
    side of every cut plane (\<open>cut_xyz_faces_in_cells\<close>), the separation keeps
    the multiset of faces (\<open>cut_separate_keeps_faces\<close>) and makes one object
    per maximal connected component (\<open>cut_separate_components\<close>).
  \<^item> The script's \<open>get_index\<close> equals the reference \<open>extent_cell\<close>, the
    floor of the midpoint of the extent (\<open>get_index_extent_cell\<close>), and lies
    between the floors of the extent (\<open>get_index_within_extent\<close>).
  \<^item> The pipeline's purpose (\<open>grid_cut_pieces_in_cells\<close>): run on one
    selected active mesh, every piece cut from it has each face, in world
    coordinates, inside one cell of the grid of cut planes; it leaves one
    object per loose group of the cut mesh (\<open>grid_cut_object_count\<close>).
  \<^item> The pipeline: with an active selected mesh it runs every stage and
    every resulting object's location is the floor of the midpoint of its
    world extent; the error paths (edit mode, no active object, active
    non-mesh) raise what Blender raises, after the effects already done.
  \<^item> Other selected meshes enter edit mode with the active one and are
    separated, but never cut (\<open>cut_other_selected_uncut\<close>): line 18 reads
    only \<^verbatim>\<open>bpy.context.object.data\<close>.  An active mesh that is not selected is
    cut, but the part left in it keeps its transform and its pivot
    (\<open>grid_cut_unselected_active_keeps_pivot\<close>).
  \<^item> Round trip of the pivot fix (\<open>fix_pivots_twice_restores\<close>): because
    \<open>get_index\<close> reads the local bounding box, a second \<open>fix_pivots\<close> finds
    cell 0 for the object the first one left selected and bakes its location
    back into the vertices, restoring the object as it was before the first.
  \<^item> An example, not a property: a piece need not lie in one cell
    (\<open>grid_cut_piece_spans_cells\<close>): two triangles touching the plane x = 1
    only at a shared vertex stay one object, since line 14 passes only cut
    edges to \<^verbatim>\<open>split_edges\<close>.
  \<^item> Loose parts (in \<open>Loose\<close>): the groups partition the faces, are connected
    and share no vertex across groups.

  \<^bold>\<open>Choices.\<close>  No loop of the script can run forever (every loop is over a
  finite list), so no fuel is needed: \<open>perform_cuts\<close> and \<open>fix_pivots_loop\<close>
  are structural recursions and the closures \<open>grow\<close> and \<open>range_vals\<close> carry
  termination proofs.  \<^verbatim>\<open>update_edit_mesh\<close> only writes the edited mesh back,
  which \<open>with_mesh\<close> does.  Edit mode on several selected meshes edits all of
  them, but the script only cuts the active one.  Witnesses avoid evaluating a
  whole \<open>grid_cut\<close> (slow under \<open>code_simp\<close>) and use the stage lemmas;
  only the example \<open>grid_cut_piece_spans_cells\<close> evaluates one, on a
  two-triangle mesh.

  \<^bold>\<open>Not modelled.\<close>  Rendering, the user interface, undo and file I/O;
  floating-point rounding; the \<^verbatim>\<open>dist\<close> tolerance of \<^verbatim>\<open>bisect_plane\<close>
  (taken as 0); rotation and scale are kept as a matrix, applied exactly; the
  host operators are modelled from Blender's documentation of them, not from
  Blender's C sources; \<^verbatim>\<open>transform_apply\<close> never refuses in object mode,
  whereas Blender refuses multi-user or library data, which the scene model
  cannot represent.  The two host components stay partial on purpose: of
  \<^verbatim>\<open>bpy\<close> only the objects, selection, modes, transforms and bounding boxes
  the script touches are modelled (no parenting, modifiers, other object data
  or view layers), and of \<^verbatim>\<open>bmesh\<close> only meshes made of faces (loose
  vertices and wire edges, which \<^verbatim>\<open>separate\<close> also moves, are left out).
  Which loose part stays in the original object, and the order of the new
  objects, follow the documentation's description, not Blender's walk order.
  Lines 1--4 (imports) and line 20 (an unused \<^verbatim>\<open>edges = []\<close>) have no
  effect; every other line of the script is modelled.
\<close>

definition grid_cut :: "int list \<Rightarrow> scene \<Rightarrow> (scene, unit) outcome" where
  "grid_cut rng s =
     py_bind (transform_apply s) (\<lambda>_ s1.
     py_bind (cut rng s1) (\<lambda>_ s2.
     fix_pivots s2))"

definition main_range :: "py_error + int list" where
  "main_range = py_range 0 10 1"

definition main :: "scene \<Rightarrow> (scene, unit) outcome" where
  "main s = (case main_range of Inl e \<Rightarrow> (Inl e, s) | Inr rng \<Rightarrow> grid_cut rng s)"

abbreviation ex_quad :: obj where
  "ex_quad \<equiv> \<lparr>otype = MESH, location = Vec3 0 0 0, basis = mat_id,
     data = \<lparr>verts = [Vec3 (1/2) (1/2) (1/2), Vec3 (5/2) (1/2) (1/2),
                      Vec3 (5/2) (3/2) (1/2), Vec3 (1/2) (3/2) (1/2)],
             faces = [[0, 1, 2, 3]]\<rparr>\<rparr>"

abbreviation ex_quad_scene :: scene where
  "ex_quad_scene \<equiv> \<lparr>objects = [ex_quad], active = Some 0, selected = [0], mode = OBJECT,
     editing = []\<rparr>"

text \<open>Two triangles that meet at one vertex on the plane \<open>x = 1\<close>, one on each side.\<close>

abbreviation ex_bowtie :: bmesh where
  "ex_bowtie \<equiv> \<lparr>verts = [Vec3 0 (5/4) 0, Vec3 1 (3/2) 0, Vec3 0 (7/4) 0, Vec3 2 (5/4) 0, Vec3 2 (7/4) 0],
                 faces = [[0, 1, 2], [1, 3, 4]]\<rparr>"

abbreviation ex_bowtie_scene :: scene where
  "ex_bowtie_scene \<equiv> \<lparr>objects = [\<lparr>otype = MESH, location = 0, basis = mat_id, data = ex_bowtie\<rparr>],
     active = Some 0, selected = [0], mode = OBJECT, editing = []\<rparr>"

text \<open>The triangle of \<open>Pivot\<close> as the active object, with nothing selected.\<close>

abbreviation ex_unsel_scene :: scene where
  "ex_unsel_scene \<equiv> \<lparr>objects = [ex_tri], active = Some 0, selected = [], mode = OBJECT, editing = []\<rparr>"

subsection \<open>The stages of \<open>grid_cut\<close>\<close>

lemma grid_cut_stages:
  assumes "mode s = OBJECT" "active s = Some a" "a < length (objects s)"
    and "otype (objects s ! a) = MESH"
  obtains s1 s2 where "transform_apply s = (Inr (), s1)" "cut rng s1 = (Inr (), s2)"
    "mode s2 = OBJECT" "extends_with (a # selected_objects s1) s1 s2"
    "grid_cut rng s = fix_pivots s2"
proof -
  obtain s1 where ta: "transform_apply s = (Inr (), s1)"
    using assms(1) by (simp add: transform_apply_def)
  note fr = transform_apply_frame [OF ta]
  then obtain s2 where c: "cut rng s1 = (Inr (), s2)" "mode s2 = OBJECT"
      "extends_with (a # selected_objects s1) s1 s2"
    using cut_ok [of s1 a rng] assms by auto
  with ta show ?thesis using that by (simp add: grid_cut_def)
qed

lemma selected_after_cut:
  assumes "transform_apply s = (Inr (), s1)" "extends_with K s1 s2"
    and "i < length (objects s2)" "i \<in> set (selected_objects s) \<or> length (objects s) \<le> i"
  shows "i \<in> set (selected_objects s2)"
  using assms transform_apply_frame [OF assms(1)]
  by (auto simp: set_selected_objects extends_with_def)

lemma identity_after_cut:
  assumes "transform_apply s = (Inr (), s1)" "extends_with (a # selected_objects s1) s1 s2"
    and "a \<in> set (selected_objects s)" "i < length (objects s2)"
    and "i \<in> set (selected_objects s) \<or> length (objects s) \<le> i"
    and "otype (objects s2 ! i) = MESH"
  shows "location (objects s2 ! i) = 0 \<and> basis (objects s2 ! i) = mat_id"
proof -
  note fr = transform_apply_frame [OF assms(1)]
  obtain k where k: "k \<in> set (selected_objects s)" "same_transform (objects s1 ! k) (objects s2 ! i)"
  proof (cases "i < length (objects s)")
    case True
    with assms(2,5) fr that show ?thesis by (auto simp: extends_with_def)
  next
    case False
    with fr have "length (objects s1) \<le> i" by simp
    with assms(2,4) have "\<exists>k \<in> set (a # selected_objects s1). k < length (objects s1) \<and>
        same_transform (objects s1 ! k) (objects s2 ! i)"
      unfolding extends_with_def by blast
    then obtain k where "k \<in> set (a # selected_objects s1)"
        "same_transform (objects s1 ! k) (objects s2 ! i)"
      by blast
    with assms(3) fr that show ?thesis by (auto simp: selected_objects_def)
  qed
  from k(1) have "k < length (objects s)" "k \<in> set (selected s)"
    by (simp_all add: set_selected_objects)
  moreover from k(2) assms(6) fr this have "otype (objects s ! k) = MESH"
    by (simp add: same_transform_def)
  ultimately have "location (objects s1 ! k) = 0 \<and> basis (objects s1 ! k) = mat_id"
    using transform_apply_identity [OF assms(1)] by blast
  with k(2) show ?thesis by (simp add: same_transform_def)
qed

lemma grid_cut_frame:
  assumes "mode s = OBJECT" "active s = Some a" "a < length (objects s)"
    and "otype (objects s ! a) = MESH" "k < length (objects s)"
  shows "k < length (objects (snd (grid_cut rng s))) \<and>
         otype (objects (snd (grid_cut rng s)) ! k) = otype (objects s ! k)"
proof -
  obtain s1 s2 where ta: "transform_apply s = (Inr (), s1)" and m2: "mode s2 = OBJECT"
      and ext: "extends_with (a # selected_objects s1) s1 s2" and gc: "grid_cut rng s = fix_pivots s2"
    using grid_cut_stages [OF assms(1-4)] by metis
  note fr = transform_apply_frame [OF ta]
  from ext fr assms(5) have "k < length (objects s2)"
    "otype (objects s2 ! k) = otype (objects s ! k)"
    by (auto simp: extends_with_def same_transform_def)
  with gc m2 show ?thesis by (auto simp: fix_pivots_eq)
qed

lemma grid_cut_single_stages:
  assumes "mode s = OBJECT" "active s = Some a" "selected_objects s = [a]" "otype (objects s ! a) = MESH"
  obtains s1 s2 where "grid_cut rng s = fix_pivots s2" "cut rng s1 = (Inr (), s2)" "mode s2 = OBJECT"
    "objects s1 ! a = apply_obj_transform (objects s ! a)" "length (objects s1) = length (objects s)"
    "active s1 = Some a" "selected_objects s1 = [a]"
proof -
  obtain s1 where s1: "transform_apply s = (Inr (), s1)" "objects s1 ! a = apply_obj_transform (objects s ! a)"
      "length (objects s1) = length (objects s)" "active s1 = active s" "selected_objects s1 = selected_objects s"
    using transform_apply_single [OF assms(1,3,4)] by blast
  have a: "a < length (objects s1)" using selected_objects_single [OF assms(3)] s1(3) by simp
  obtain s2 where c: "cut rng s1 = (Inr (), s2)" "mode s2 = OBJECT"
    using cut_single_eq [of s1 a rng] assms s1 a by simp
  then have "grid_cut rng s = fix_pivots s2" using s1(1) by (simp add: grid_cut_def)
  then show ?thesis by (rule that) (use c s1 assms(2,3) in simp_all)
qed

lemma grid_cut_single_separated:
  assumes "mode s = OBJECT" "active s = Some a" "selected_objects s = [a]" "otype (objects s ! a) = MESH"
  obtains s1 where
    "grid_cut rng s = fix_pivots ((separate_obj a (s1\<lparr>mode := EDIT, editing := [a],
        objects := (objects s1)[a := (objects s1 ! a)\<lparr>data := snd (cut_xyz rng (data (objects s1 ! a)))\<rparr>]\<rparr>))
        \<lparr>mode := OBJECT, editing := []\<rparr>)"
    "objects s1 ! a = apply_obj_transform (objects s ! a)" "length (objects s1) = length (objects s)"
    "a < length (objects s)"
proof -
  obtain s1 s2 where st: "grid_cut rng s = fix_pivots s2" "cut rng s1 = (Inr (), s2)"
      "objects s1 ! a = apply_obj_transform (objects s ! a)" "length (objects s1) = length (objects s)"
      "active s1 = Some a" "selected_objects s1 = [a]"
    using grid_cut_single_stages [OF assms] by metis
  have a: "a < length (objects s1)" using selected_objects_single [OF st(6)] by simp
  have m1: "otype (objects s1 ! a) = MESH" "set (selected_objects s1) \<subseteq> {a}" using st(3,6) assms(4) by simp_all
  from cut_single_eq [OF st(5) a m1, of rng] st(2,1) show ?thesis
    using that st(3,4) a by simp
qed

lemma grid_cut_single_pieces:
  assumes "mode s = OBJECT" "active s = Some a" "selected_objects s = [a]"
    and "otype (objects s ! a) = MESH" "idx_ok (data (objects s ! a))"
    and "grid_cut rng s = (r, s')" "j = a \<or> length (objects s) \<le> j" "j < length (objects s')"
  shows "obj_in_cells rng (objects s' ! j)"
proof -
  obtain s1 s2 where st: "grid_cut rng s = fix_pivots s2" "cut rng s1 = (Inr (), s2)" "mode s2 = OBJECT"
      "objects s1 ! a = apply_obj_transform (objects s ! a)" "length (objects s1) = length (objects s)"
      "active s1 = Some a" "selected_objects s1 = [a]"
    using grid_cut_single_stages [OF assms(1-4)] by metis
  have a: "a < length (objects s1)" using selected_objects_single [OF st(7)] by simp
  have ok1: "idx_ok (data (objects s1 ! a))"
    using assms(5) st(4) by (simp add: idx_ok_def world_verts_def)
  have len: "length (objects s') = length (objects s2)"
    using assms(6) st(1,3) by (auto simp: fix_pivots_eq)
  have piece: "obj_in_cells rng (objects s2 ! j) \<and> otype (objects s2 ! j) = MESH \<and> idx_ok (data (objects s2 ! j))"
    by (rule cut_single_pieces [OF st(6) a]) (use st assms(4,7,8) len ok1 in simp_all)
  have "objects s' ! j = objects s2 ! j \<or> objects s' ! j = pivot_fixed (objects s2 ! j)"
    using assms(6,8) st(1,3) len by (auto simp: fix_pivots_eq)
  with piece show ?thesis using pivot_fixed_in_cells by metis
qed

lemma grid_cut_single_keeps_face:
  assumes "mode s = OBJECT" "active s = Some a" "selected_objects s = [a]"
    and "otype (objects s ! a) = MESH" "faces (data (objects s ! a)) \<noteq> []"
  shows "a < length (objects (snd (grid_cut rng s))) \<and> faces (data (objects (snd (grid_cut rng s)) ! a)) \<noteq> []"
proof -
  obtain s1 s2 where st: "grid_cut rng s = fix_pivots s2" "cut rng s1 = (Inr (), s2)" "mode s2 = OBJECT"
      "objects s1 ! a = apply_obj_transform (objects s ! a)" "length (objects s1) = length (objects s)"
      "active s1 = Some a" "selected_objects s1 = [a]"
    using grid_cut_single_stages [OF assms(1-4)] by metis
  have a: "a < length (objects s1)" using selected_objects_single [OF st(7)] by simp
  have m1: "otype (objects s1 ! a) = MESH" "set (selected_objects s1) \<subseteq> {a}" using st(4,7) assms(4) by simp_all
  let ?t = "s1\<lparr>mode := EDIT, editing := [a],
     objects := (objects s1)[a := (objects s1 ! a)\<lparr>data := snd (cut_xyz rng (data (objects s1 ! a)))\<rparr>]\<rparr>"
  from cut_single_eq [OF st(6) a m1, of rng] st(2)
  have "s2 = (separate_obj a ?t)\<lparr>mode := OBJECT, editing := []\<rparr>" by simp
  then have a2: "a < length (objects s2)" using a length_separate_obj [of ?t a] by simp
  have "faces (data (objects s2 ! a)) \<noteq> []"
    using cut_single_keeps_face [OF st(6) a m1 _ st(2)] st(4) assms(5) by simp
  moreover have "objects (snd (grid_cut rng s)) ! a = objects s2 ! a \<or>
                 objects (snd (grid_cut rng s)) ! a = pivot_fixed (objects s2 ! a)"
    using st(1,3) a2 by (auto simp: fix_pivots_eq)
  moreover have "length (objects (snd (grid_cut rng s))) = length (objects s2)"
    using st(1,3) by (simp add: fix_pivots_eq)
  ultimately show ?thesis using a2 by auto
qed

text \<open>C6: the pipeline meets the invariant the spec states for it: after
  \<open>grid_cut\<close>, started in object mode on a selected active mesh, every mesh
  object that was selected or was split off by the cut has, along every axis, its
  location at the floor of the midpoint of its world-space extent.\<close>

theorem grid_cut_location_cell:
  assumes "mode s = OBJECT" "active s = Some a" "a \<in> set (selected_objects s)"
    and "otype (objects s ! a) = MESH"
    and "grid_cut rng s = (r, s')" "i < length (objects s')" "otype (objects s' ! i) = MESH"
    and "i \<in> set (selected_objects s) \<or> length (objects s) \<le> i"
  shows "coord d (location (objects s' ! i)) =
    of_int \<lfloor>(lo_of (coord d) (world_verts (objects s' ! i))
              + hi_of (coord d) (world_verts (objects s' ! i))) / 2\<rfloor>"
proof -
  have a: "a < length (objects s)" using assms(3) by (simp add: set_selected_objects)
  obtain s1 s2 where ta: "transform_apply s = (Inr (), s1)" and m2: "mode s2 = OBJECT"
      and ext: "extends_with (a # selected_objects s1) s1 s2" and gc: "grid_cut rng s = fix_pivots s2"
    using grid_cut_stages [OF assms(1,2) a assms(4)] by metis
  have len: "length (objects s') = length (objects s2)"
    using assms(5) gc m2 by (auto simp: fix_pivots_eq split: if_splits)
  have sel: "i \<in> set (selected_objects s2)"
    using selected_after_cut [OF ta ext] assms(6,8) len by simp
  then have obi: "objects s' ! i = pivot_fixed (objects s2 ! i)"
    using assms(5) gc m2 len assms(6) by (auto simp: fix_pivots_eq)
  then have "otype (objects s2 ! i) = MESH" using assms(7) by simp
  with identity_after_cut [OF ta ext assms(3)] assms(6,8) len
  have "location (objects s2 ! i) = 0 \<and> basis (objects s2 ! i) = mat_id" by simp
  with obi \<open>otype (objects s2 ! i) = MESH\<close> show ?thesis
    by (simp add: pivot_fixed_identity_location)
qed

theorem grid_cut_location_cell_witness:
  "coord AX (location (objects (snd (grid_cut [0..9] ex_quad_scene)) ! 0)) =
    of_int \<lfloor>(lo_of (coord AX) (world_verts (objects (snd (grid_cut [0..9] ex_quad_scene)) ! 0))
              + hi_of (coord AX) (world_verts (objects (snd (grid_cut [0..9] ex_quad_scene)) ! 0)))
             / 2\<rfloor>"
proof -
  have fr: "0 < length (objects (snd (grid_cut [0..9] ex_quad_scene))) \<and>
      otype (objects (snd (grid_cut [0..9] ex_quad_scene)) ! 0) = MESH"
    using grid_cut_frame [of ex_quad_scene 0 0 "[0..9]"] by simp
  show ?thesis
    using grid_cut_location_cell [of ex_quad_scene 0 "[0..9]"
        "fst (grid_cut [0..9] ex_quad_scene)" "snd (grid_cut [0..9] ex_quad_scene)" 0 AX] fr
    by (simp add: selected_objects_def)
qed

text \<open>C7: started in object mode with an active mesh object, \<open>grid_cut\<close> runs
  every stage: no operator refuses and no cut raises, and it returns through
  the \<^verbatim>\<open>AttributeError\<close> of the last line of \<open>fix_pivots\<close>, back in object
  mode.\<close>

theorem grid_cut_completes:
  assumes "mode s = OBJECT" "active s = Some a" "a < length (objects s)"
    and "otype (objects s ! a) = MESH"
  shows "\<exists>s'. grid_cut rng s = (Inl read_only_error, s') \<and> mode s' = OBJECT"
proof -
  obtain s1 s2 where m2: "mode s2 = OBJECT" and gc: "grid_cut rng s = fix_pivots s2"
    using grid_cut_stages [OF assms] by metis
  then show ?thesis by (auto simp: fix_pivots_eq)
qed

theorem grid_cut_completes_witness:
  "\<exists>s'. grid_cut [0..9] ex_quad_scene = (Inl read_only_error, s') \<and> mode s' = OBJECT"
  using grid_cut_completes [of ex_quad_scene 0 "[0..9]"] by simp

text \<open>C8: started in edit mode, \<open>grid_cut\<close> fails at its first call, the
  \<^verbatim>\<open>transform_apply\<close> operator, and changes nothing.\<close>

theorem grid_cut_edit_mode:
  "mode s = EDIT \<Longrightarrow>
   grid_cut rng s = (Inl (RuntimeError ''Operator bpy.ops.object.transform_apply.poll() failed''), s)"
  by (simp add: grid_cut_def transform_apply_EDIT)

theorem grid_cut_edit_mode_witness:
  "grid_cut [0..9] (ex_quad_scene\<lparr>mode := EDIT\<rparr>) =
   (Inl (RuntimeError ''Operator bpy.ops.object.transform_apply.poll() failed''),
    ex_quad_scene\<lparr>mode := EDIT\<rparr>)"
  using grid_cut_edit_mode [of "ex_quad_scene\<lparr>mode := EDIT\<rparr>" "[0..9]"] by simp

text \<open>C9: without an active object \<open>grid_cut\<close> raises when \<open>cut\<close> enters edit
  mode, after the transforms of the selected meshes have already been applied:
  the failure is not atomic.\<close>

theorem grid_cut_no_active:
  assumes "mode s = OBJECT" "active s = None"
  shows "grid_cut rng s =
    (Inl (RuntimeError ''Operator bpy.ops.object.mode_set.poll() failed''), snd (transform_apply s))"
proof -
  obtain s1 where ta: "transform_apply s = (Inr (), s1)"
    using assms(1) by (simp add: transform_apply_def)
  with assms(2) have "active s1 = None" using transform_apply_frame(2) by metis
  with ta show ?thesis by (simp add: grid_cut_def cut_def mode_set_def)
qed

theorem grid_cut_no_active_witness:
  "grid_cut [0..9] (ex_quad_scene\<lparr>active := None\<rparr>) =
    (Inl (RuntimeError ''Operator bpy.ops.object.mode_set.poll() failed''),
     snd (transform_apply (ex_quad_scene\<lparr>active := None\<rparr>)))"
  using grid_cut_no_active [of "ex_quad_scene\<lparr>active := None\<rparr>" "[0..9]"] by simp

text \<open>C10: an active object that is not a mesh makes \<open>cut\<close> raise a
  \<^verbatim>\<open>TypeError\<close> on entering edit mode, again after the transforms of the
  selection were applied.\<close>

theorem grid_cut_active_not_mesh:
  assumes "mode s = OBJECT" "active s = Some a" "a < length (objects s)"
    and "otype (objects s ! a) = OTHER"
  shows "grid_cut rng s =
    (Inl (TypeError ''enum \"EDIT\" not found in ('OBJECT')''), snd (transform_apply s))"
proof -
  obtain s1 where ta: "transform_apply s = (Inr (), s1)"
    using assms(1) by (simp add: transform_apply_def)
  note fr = transform_apply_frame [OF ta]
  with assms have "active s1 = Some a" "a < length (objects s1)" "otype (objects s1 ! a) = OTHER"
    by simp_all
  with ta show ?thesis by (simp add: grid_cut_def cut_def mode_set_def)
qed

theorem grid_cut_active_not_mesh_witness:
  "grid_cut [0..9] (ex_quad_scene\<lparr>objects := [ex_quad\<lparr>otype := OTHER\<rparr>]\<rparr>) =
    (Inl (TypeError ''enum \"EDIT\" not found in ('OBJECT')''),
     snd (transform_apply (ex_quad_scene\<lparr>objects := [ex_quad\<lparr>otype := OTHER\<rparr>]\<rparr>)))"
  using grid_cut_active_not_mesh
      [of "ex_quad_scene\<lparr>objects := [ex_quad\<lparr>otype := OTHER\<rparr>]\<rparr>" 0 "[0..9]"]
  by simp

text \<open>C17: what the script is for: run on one selected active mesh, \<open>grid_cut\<close>
  leaves every piece cut from it (the object itself and every object added
  after it) with each face, in world coordinates, on one closed side of every
  cut plane \<open>x = i\<close>, \<open>y = i\<close>, \<open>z = i\<close>: each face lies in one cell of the grid.\<close>

theorem grid_cut_pieces_in_cells:
  assumes "mode s = OBJECT" "active s = Some a" "selected_objects s = [a]"
    and "otype (objects s ! a) = MESH" "idx_ok (data (objects s ! a))"
    and "grid_cut rng s = (r, s')" "j = a \<or> length (objects s) \<le> j" "j < length (objects s')"
    and "f \<in> set (faces (data (objects s' ! j)))" "i \<in> set rng"
  shows "(\<forall>v \<in> set f. coord d (world_of (objects s' ! j) (verts (data (objects s' ! j)) ! v)) \<le> of_int i) \<or>
         (\<forall>v \<in> set f. of_int i \<le> coord d (world_of (objects s' ! j) (verts (data (objects s' ! j)) ! v)))"
  using grid_cut_single_pieces [OF assms(1-8)] assms(10,9) by (rule obj_in_cellsD)

theorem grid_cut_pieces_in_cells_witness:
  "(\<forall>v \<in> set (hd (faces (data (objects (snd (grid_cut [1] ex_quad_scene)) ! 0)))).
      coord AX (world_of (objects (snd (grid_cut [1] ex_quad_scene)) ! 0)
        (verts (data (objects (snd (grid_cut [1] ex_quad_scene)) ! 0)) ! v)) \<le> of_int 1) \<or>
   (\<forall>v \<in> set (hd (faces (data (objects (snd (grid_cut [1] ex_quad_scene)) ! 0)))).
      of_int 1 \<le> coord AX (world_of (objects (snd (grid_cut [1] ex_quad_scene)) ! 0)
        (verts (data (objects (snd (grid_cut [1] ex_quad_scene)) ! 0)) ! v)))"
proof -
  have h: "0 < length (objects (snd (grid_cut [1] ex_quad_scene))) \<and>
           faces (data (objects (snd (grid_cut [1] ex_quad_scene)) ! 0)) \<noteq> []"
    by (rule grid_cut_single_keeps_face) (simp_all add: selected_objects_def)
  show ?thesis
    by (rule grid_cut_pieces_in_cells [where a = 0, OF _ _ _ _ _ prod.collapse [symmetric]])
       (use h in \<open>simp_all add: selected_objects_def idx_ok_def hd_in_set\<close>)
qed

text \<open>An example, behind the finding on line 14: a piece can span two cells.
  Two triangles meeting at a single vertex on
  the plane \<open>x = 1\<close>, one on each side, come out of \<open>grid_cut\<close> as one object:
  the bisection finds no edge to cut, the vertex on the plane is dropped by the
  filter on line 14, so nothing is ripped there, and the loose-part separation
  keeps the two faces together.  The object keeps both faces, one with a corner
  at world \<open>x = 0\<close>, the other with a corner at world \<open>x = 2\<close>.\<close>

lemma grid_cut_piece_spans_cells:
  "length (objects (snd (grid_cut [1] ex_bowtie_scene))) = 1 \<and>
   faces (data (objects (snd (grid_cut [1] ex_bowtie_scene)) ! 0)) = [[0, 1, 2], [1, 3, 4]] \<and>
   world_verts (objects (snd (grid_cut [1] ex_bowtie_scene)) ! 0) = verts ex_bowtie"
proof -
  have g: "grid_cut [1] ex_bowtie_scene =
    (Inl read_only_error, ex_bowtie_scene\<lparr>objects := [\<lparr>otype = MESH, location = Vec3 1 1 0, basis = mat_id,
       data = \<lparr>verts = [Vec3 (-1) (1/4) 0, Vec3 0 (1/2) 0, Vec3 (-1) (3/4) 0, Vec3 1 (1/4) 0, Vec3 1 (3/4) 0],
               faces = [[0, 1, 2], [1, 3, 4]]\<rparr>\<rparr>]\<rparr>)"
    by code_simp
  show ?thesis unfolding g by (simp add: world_verts_def world_of_def plus_vec3_def)
qed

text \<open>C20: an active mesh that is not selected is cut (edit mode takes the active
  object), but \<open>transform_apply\<close> (line 57) and the loop of \<open>fix_pivots\<close>
  (line 47) only visit selected objects: the part of the mesh left in the active
  object keeps its location and its rotation and scale, and its pivot is not
  fixed, while the parts split off from it are selected and fixed.\<close>

theorem grid_cut_unselected_active_keeps_pivot:
  assumes "mode s = OBJECT" "active s = Some a" "a < length (objects s)"
    and "otype (objects s ! a) = MESH" "a \<notin> set (selected s)" "grid_cut rng s = (r, s')"
  shows "location (objects s' ! a) = location (objects s ! a) \<and> basis (objects s' ! a) = basis (objects s ! a)"
proof -
  obtain s1 s2 where ta: "transform_apply s = (Inr (), s1)" and m2: "mode s2 = OBJECT"
      and ext: "extends_with (a # selected_objects s1) s1 s2" and gc: "grid_cut rng s = fix_pivots s2"
    using grid_cut_stages [OF assms(1-4)] by metis
  note fr = transform_apply_frame [OF ta]
  have o1: "objects s1 ! a = objects s ! a"
    using ta assms(1,3,5) by (auto simp: transform_apply_def)
  have a2: "a < length (objects s2)" and st: "same_transform (objects s1 ! a) (objects s2 ! a)"
    using ext fr assms(3) by (auto simp: extends_with_def)
  have "a \<notin> set (selected_objects s2)"
    using ext fr assms(3,5) by (auto simp: extends_with_def set_selected_objects)
  then have "objects s' ! a = objects s2 ! a"
    using gc assms(6) m2 a2 by (auto simp: fix_pivots_eq)
  with st o1 show ?thesis by (simp add: same_transform_def)
qed

theorem grid_cut_unselected_active_keeps_pivot_witness:
  "location (objects (snd (grid_cut [1] ex_unsel_scene)) ! 0) = Vec3 1 0 0"
  using grid_cut_unselected_active_keeps_pivot [OF _ _ _ _ _ prod.collapse [symmetric], of ex_unsel_scene 0 "[1]"]
  by simp

text \<open>C22: how many objects \<open>grid_cut\<close> leaves when one mesh is selected and
  active: one per loose group of the mesh cut in world coordinates, the first
  kept in the original object and every other one a new object.\<close>

theorem grid_cut_object_count:
  assumes "mode s = OBJECT" "active s = Some a" "selected_objects s = [a]" "otype (objects s ! a) = MESH"
  shows "length (objects (snd (grid_cut rng s))) =
         length (objects s) + (length (loose_groups (snd (cut_xyz rng (mesh_map (world_of (objects s ! a))
                                                     (data (objects s ! a)))))) - 1)"
proof -
  obtain s1 where g: "grid_cut rng s = fix_pivots ((separate_obj a (s1\<lparr>mode := EDIT, editing := [a],
        objects := (objects s1)[a := (objects s1 ! a)\<lparr>data := snd (cut_xyz rng (data (objects s1 ! a)))\<rparr>]\<rparr>))
        \<lparr>mode := OBJECT, editing := []\<rparr>)"
    and o1: "objects s1 ! a = apply_obj_transform (objects s ! a)"
    and l1: "length (objects s1) = length (objects s)" and a: "a < length (objects s)"
    by (rule grid_cut_single_separated [OF assms])
  show ?thesis
    unfolding g using a l1 o1
    by (simp add: fix_pivots_eq length_separate_obj_parts loose_parts_def apply_obj_transform_def)
qed

theorem grid_cut_object_count_witness:
  "length (objects (snd (grid_cut [1] ex_quad_scene))) =
   1 + (length (loose_groups (snd (cut_xyz [1] (mesh_map (world_of ex_quad) (data ex_quad))))) - 1)"
  using grid_cut_object_count [of ex_quad_scene 0 "[1]"] by (simp add: selected_objects_def)

end
